theory Spec2Isabelle
  imports Main "HOL-Library.Code_Target_Nat"
begin

section \<open>The Reduced Machine simulator (reducedmachine.py)\<close>

text \<open>
  A shallow embedding of the simulator: the symbol codec (\<open>int_to_symbols\<close>,
  \<open>symbols_to_int\<close>), the electronic store (class \<open>EStore\<close>), the machine state
  (class \<open>State\<close>) and the engine (class \<open>ReducedMachine\<close>).

  Numbers. The source computes its moduli with \<open>math.pow\<close>, so most of its numbers are
  Python floats that hold integers. Every such value below \<open>2^53\<close> in magnitude is held
  exactly and \<open>+\<close>, \<open>-\<close>, \<open>*\<close>, \<open>%\<close> and \<open>divmod\<close> on them agree with
  the integer operations (Python's \<open>%\<close> with a positive modulus is the non-negative
  residue, as \<open>mod\<close> on \<open>int\<close> is). The embedding uses \<open>int\<close> and \<open>nat\<close> for them; it
  describes the program on this exact range. The decoder \<open>symbols_to_int\<close> is the one
  function whose float sum leaves that range on strings it accepts, and whose
  \<open>math.pow\<close> can raise: its accumulator is modelled as the float it is.

  Strings. A Python string is a sequence of code points. All 32 symbols have code points
  below 256, so a character is a \<open>char\<close> holding its code point; the pound sign is
  \<open>CHR 0xA3\<close> and the double quote is \<open>CHR 0x22\<close>.

  Console output (\<open>printn\<close>, \<open>print\<close>) and the memory dump file written by \<open>run\<close>
  change nothing in the machine and are left out, and with them the step number \<open>n\<close>
  that \<open>next\<close> and \<open>applyInstruction\<close> take only to print it.
\<close>

subsection \<open>Global machine settings\<close>

definition symbols :: "char list" where
  "symbols = ''/E@A:SIU8DRJNFCKTZLWHYPQOBG'' @ [CHR 0x22] @ ''MXV'' @ [CHR 0xA3]"

abbreviation symbolvalue :: nat where "symbolvalue \<equiv> 5"
abbreviation linesize :: nat where "linesize \<equiv> 20"
abbreviation shortlinesize :: nat where "shortlinesize \<equiv> 10"
abbreviation max_acc_symbols :: nat where "max_acc_symbols \<equiv> 8"

abbreviation max_acc_size :: int where "max_acc_size \<equiv> 2 ^ (max_acc_symbols * symbolvalue)"
abbreviation max_line_size :: int where "max_line_size \<equiv> 2 ^ linesize"
abbreviation max_short_line_size :: int where "max_short_line_size \<equiv> 2 ^ shortlinesize"

subsection \<open>Python exceptions\<close>

text \<open>
  The exception classes the modelled code can raise. \<open>AssertionError\<close> is what a failed
  \<open>assert\<close> raises, \<open>ValueError\<close> is what \<open>symbols.index\<close> raises for a character that
  is not a symbol, \<open>OverflowError\<close> is what \<open>math.pow\<close> raises when its result is
  beyond the floats and what \<open>int\<close> raises for the infinite float, and
  \<open>InvalidInstructionError\<close> is the program's own class, raised with a message.
\<close>

datatype exn = AssertionError | ValueError | OverflowError | InvalidInstructionError string

subsection \<open>Symbol codec\<close>

text \<open>\<open>str.ljust(width, fillchar)\<close>: pads on the right, never shortens.\<close>

definition ljust :: "string \<Rightarrow> nat \<Rightarrow> char \<Rightarrow> string" where
  "ljust s width fillchar = s @ replicate (width - length s) fillchar"

text \<open>
  The loop of \<open>int_to_symbols\<close>:
  \<^verbatim>\<open>while n != 0: (n, m) = divmod(n, len(symbols)); out += symbols[int(m)]\<close>.
  It runs on the residue \<open>n % 2^20\<close>, which is not negative.
\<close>

function int_to_symbols_loop :: "nat \<Rightarrow> string" where
  "int_to_symbols_loop n =
     (if n = 0 then [] else symbols ! (n mod length symbols) # int_to_symbols_loop (n div length symbols))"
  by pat_completeness auto
termination
  by (relation "measure id") (auto simp: symbols_def)

declare int_to_symbols_loop.simps [simp del]

definition int_to_symbols :: "int \<Rightarrow> nat \<Rightarrow> string" where
  "int_to_symbols n sz =
     ljust (int_to_symbols_loop (nat (n mod 2 ^ linesize))) sz (symbols ! 0)"

text \<open>\<open>list.index\<close>: the position of the first occurrence, or \<open>ValueError\<close>.\<close>

fun index :: "'a list \<Rightarrow> 'a \<Rightarrow> nat option" where
  "index [] x = None"
| "index (y # ys) x = (if y = x then Some 0 else map_option Suc (index ys x))"

text \<open>
  The floats of \<open>symbols_to_int\<close>. From the first symbol on, its variable \<open>out\<close> is a
  Python float, an IEEE 754 double. Every value it takes is a non-negative integer or
  the infinity, and \<open>pyfloat\<close> holds such a value. \<open>fl x\<close> is the double nearest to the
  non-negative integer \<open>x\<close>, a tie going to the even significand: an integer below
  \<open>2^53\<close> is a double; a longer one is rounded to its 53 leading bits; and a rounded
  value of \<open>2^1024\<close> or more is the infinity. \<open>bit_length\<close> is \<open>int.bit_length\<close>.
  The float operations \<open>+\<close> and \<open>*\<close> return \<open>fl\<close> of the exact result and raise
  nothing.
\<close>

function bit_length :: "int \<Rightarrow> nat" where
  "bit_length x = (if x \<le> 0 then 0 else Suc (bit_length (x div 2)))"
  by pat_completeness auto
termination
  by (relation "measure nat") auto

declare bit_length.simps [simp del]

datatype pyfloat = Finite int | Infinity

definition fl :: "int \<Rightarrow> pyfloat" where
  "fl x =
     (if x < 2 ^ 53 then Finite x
      else let e = bit_length x - 53;
               q = x div 2 ^ e;
               r = x mod 2 ^ e;
               y = (if 2 ^ e < 2 * r \<or> (2 * r = 2 ^ e \<and> odd q) then (q + 1) * 2 ^ e else q * 2 ^ e)
           in if y < 2 ^ 1024 then Finite y else Infinity)"

fun float_add :: "pyfloat \<Rightarrow> pyfloat \<Rightarrow> pyfloat" where
  "float_add (Finite a) (Finite b) = fl (a + b)"
| "float_add (Finite a) Infinity = Infinity"
| "float_add Infinity b = Infinity"

text \<open>
  The loop of \<open>symbols_to_int\<close>, with its two variables \<open>i\<close> and \<open>out\<close>:
  \<^verbatim>\<open>for s in sym: out += symbols.index(s)*math.pow(2, i); i += symbolvalue\<close>.
  In each round \<open>symbols.index(s)\<close> is evaluated first, then \<open>math.pow(2, i)\<close>, which
  raises \<open>OverflowError\<close> from \<open>i = 1024\<close> on (so at the 206th symbol, where
  \<open>i = 1025\<close>) and is the exact power below; the product and the sum are float
  operations. At the end \<open>int(out)\<close> raises \<open>OverflowError\<close> for the infinity.
\<close>

fun symbols_to_int_loop :: "nat \<Rightarrow> pyfloat \<Rightarrow> string \<Rightarrow> exn + pyfloat" where
  "symbols_to_int_loop i out [] = Inr out"
| "symbols_to_int_loop i out (s # syms) =
     (case index symbols s of
        None \<Rightarrow> Inl ValueError
      | Some k \<Rightarrow>
          if 1024 \<le> i then Inl OverflowError
          else symbols_to_int_loop (i + symbolvalue) (float_add out (fl (int k * 2 ^ i))) syms)"

definition symbols_to_int :: "string \<Rightarrow> exn + int" where
  "symbols_to_int syms =
     (case symbols_to_int_loop 0 (Finite 0) syms of
        Inl e \<Rightarrow> Inl e
      | Inr Infinity \<Rightarrow> Inl OverflowError
      | Inr (Finite out) \<Rightarrow> Inr out)"

subsection \<open>Electronic store\<close>

text \<open>
  \<open>EStore.memory\<close> is a Python dict from address strings to line strings. It is an
  association list in insertion order, which is the order \<open>dump\<close> lists it in. The class
  has no other field, so the store is its memory. (\<open>memory\<close> is a class attribute that
  no object replaces: all \<open>EStore\<close> objects of a process share one dict. The program
  creates its stores before the first write and uses one of them.)
\<close>

type_synonym EStore = "(string \<times> string) list"

text \<open>\<open>memory[k] = v\<close>: replaces the value of a key in place, or appends a new key.\<close>

fun dict_setitem :: "'k \<Rightarrow> 'v \<Rightarrow> ('k \<times> 'v) list \<Rightarrow> ('k \<times> 'v) list" where
  "dict_setitem k v [] = [(k, v)]"
| "dict_setitem k v (p # ps) = (if fst p = k then (k, v) # ps else p # dict_setitem k v ps)"

text \<open>\<open>EStore.valid(val, length)\<close>, with its loop over the characters.\<close>

definition valid :: "string \<Rightarrow> nat \<Rightarrow> bool" where
  "valid val len =
     (let correct = (length val \<le> len)
      in if correct then fold (\<lambda>v correct. correct \<and> v \<in> set symbols) val correct else correct)"

text \<open>
  \<open>textwrap.wrap(text, width)\<close> on a text without whitespace and without hyphens: one
  long word, cut into pieces of \<open>width\<close> characters, the last one shorter when the
  length is no multiple; no piece for the empty text. \<open>EStore.set\<close> calls it after
  validation only, on symbols, none of which is a whitespace or a hyphen, and with
  width 4.
\<close>

function wrap :: "string \<Rightarrow> nat \<Rightarrow> string list" where
  "wrap txt width =
     (if txt = [] \<or> width = 0 then [] else take width txt # wrap (drop width txt) width)"
  by pat_completeness auto
termination
  by (relation "measure (\<lambda>(txt, width). length txt)") auto

declare wrap.simps [simp del]

text \<open>The body of the loop of \<open>EStore.set\<close>, for the pair \<open>(i, v)\<close> of \<open>enumerate(val)\<close>.\<close>

definition set_line :: "int \<Rightarrow> nat \<times> string \<Rightarrow> EStore \<Rightarrow> EStore" where
  "set_line loc_int iv memory =
     (let newloc = int_to_symbols ((loc_int + int (fst iv)) mod max_short_line_size)
                     (shortlinesize div symbolvalue)
      in dict_setitem newloc (ljust (snd iv) (linesize div symbolvalue) (symbols ! 0)) memory)"

text \<open>
  \<open>EStore.set(loc, val)\<close>. The result is the exception raised, if any, and the memory
  afterwards.
\<close>

definition EStore_set :: "string \<Rightarrow> string \<Rightarrow> EStore \<Rightarrow> (exn + unit) \<times> EStore" where
  "EStore_set loc val memory =
     (if \<not> valid loc (shortlinesize div symbolvalue) then (Inl AssertionError, memory)
      else if \<not> valid val (linesize div symbolvalue * 2) then (Inl AssertionError, memory)
      else (case symbols_to_int loc of
              Inl e \<Rightarrow> (Inl e, memory)
            | Inr loc_int \<Rightarrow>
                (Inr (), fold (set_line loc_int)
                           (enumerate 0 (wrap val (linesize div symbolvalue))) memory)))"

text \<open>
  The body of the loop of \<open>EStore.get\<close>:
  \<^verbatim>\<open>if newloc not in self.memory.keys(): self.memory[newloc] = "////"\<close> and then
  \<^verbatim>\<open>output += self.memory[newloc]\<close>, as one lookup.
\<close>

definition get_line :: "int \<Rightarrow> nat \<Rightarrow> string \<times> EStore \<Rightarrow> string \<times> EStore" where
  "get_line loc_int i om =
     (let newloc = int_to_symbols ((loc_int + int i) mod max_short_line_size)
                     (shortlinesize div symbolvalue)
      in case map_of (snd om) newloc of
           None \<Rightarrow> (fst om @ ''////'', dict_setitem newloc ''////'' (snd om))
         | Some line \<Rightarrow> (fst om @ line, snd om))"

text \<open>
  \<open>EStore.get(loc, lines)\<close> decides by the type of \<open>loc\<close> what it returns. Called with
  a number (\<open>isinstance(loc, int) or isinstance(loc, float)\<close>) it returns the lines
  decoded to an integer: this is \<open>EStore_get_num\<close>. Called with a string it returns the
  lines as a string: this is \<open>EStore_get_str\<close>. Both run the same loop.
\<close>

definition EStore_get_num :: "int \<Rightarrow> int \<Rightarrow> EStore \<Rightarrow> (exn + int) \<times> EStore" where
  "EStore_get_num loc lines memory =
     (let loc_int = loc;
          loc' = int_to_symbols loc (shortlinesize div symbolvalue)
      in if \<not> valid loc' (shortlinesize div symbolvalue) then (Inl AssertionError, memory)
         else if \<not> lines \<ge> 1 then (Inl AssertionError, memory)
         else (let om = fold (get_line loc_int) [0..<nat lines] ([], memory)
               in case symbols_to_int (fst om) of
                    Inl e \<Rightarrow> (Inl e, snd om)
                  | Inr output \<Rightarrow> (Inr output, snd om)))"

definition EStore_get_str :: "string \<Rightarrow> int \<Rightarrow> EStore \<Rightarrow> (exn + string) \<times> EStore" where
  "EStore_get_str loc lines memory =
     (case symbols_to_int loc of
        Inl e \<Rightarrow> (Inl e, memory)
      | Inr loc_int \<Rightarrow>
          if \<not> valid loc (shortlinesize div symbolvalue) then (Inl AssertionError, memory)
          else if \<not> lines \<ge> 1 then (Inl AssertionError, memory)
          else (let om = fold (get_line loc_int) [0..<nat lines] ([], memory)
                in (Inr (fst om), snd om)))"

text \<open>
  \<open>EStore.load\<close>, from the list of the pairs \<open>(args[0], args[1])\<close> of the lines of the
  file that are neither blank nor comments; an exception of \<open>set\<close> ends it.
\<close>

fun load :: "(string \<times> string) list \<Rightarrow> EStore \<Rightarrow> (exn + unit) \<times> EStore" where
  "load [] memory = (Inr (), memory)"
| "load (args # rest) memory =
     (case EStore_set (fst args) (snd args) memory of
        (Inl e, memory') \<Rightarrow> (Inl e, memory')
      | (Inr u, memory') \<Rightarrow> load rest memory')"

text \<open>\<open>EStore.dump\<close>: every line of the memory, as \<open>address value\<close>.\<close>

definition dump :: "EStore \<Rightarrow> string list" where
  "dump memory = map (\<lambda>x. fst x @ '' '' @ snd x) memory"

subsection \<open>Machine state\<close>

record State =
  A :: int
  e_store :: EStore
  C :: int
  S :: int

text \<open>\<open>State.__init__(A, e_store)\<close> with the defaults of \<open>C\<close> and \<open>S\<close>.\<close>

definition State_init :: "int \<Rightarrow> EStore \<Rightarrow> State" where
  "State_init a store = \<lparr>A = a, e_store = store, C = max_short_line_size - 1, S = 0\<rparr>"

subsection \<open>Engine\<close>

text \<open>
  The methods of \<open>ReducedMachine\<close> change \<open>self.state\<close> in place. Each is a function
  from the state to the exception raised, if any, and the state afterwards.
\<close>

definition I :: "State \<Rightarrow> (exn + unit) \<times> State" where
  "I st =
     (let st1 = st\<lparr>C := (C st + 1) mod max_short_line_size\<rparr>
      in case EStore_get_num (C st1) 1 (e_store st1) of
           (Inl e, memory) \<Rightarrow> (Inl e, st1\<lparr>e_store := memory\<rparr>)
         | (Inr v, memory) \<Rightarrow> (Inr (), st1\<lparr>e_store := memory, S := v\<rparr>))"

text \<open>The case split of \<open>applyInstruction\<close>, from the state after the two operand reads.\<close>

definition execute :: "string \<Rightarrow> string \<Rightarrow> string \<Rightarrow> string \<Rightarrow> int \<Rightarrow> int \<Rightarrow> State
    \<Rightarrow> (exn + unit) \<times> State" where
  "execute instr line_pair func_sym acc_symbols s_data s_pair_data st =
     (if func_sym = ''/H'' then
        (if \<not> (2 ^ 40 > A st \<and> A st \<ge> 2 ^ 39)
         then (Inr (), st\<lparr>C := s_data mod max_short_line_size\<rparr>)
         else (Inr (), st))
      else if func_sym = ''/P'' then
        (Inr (), st\<lparr>C := s_data mod max_short_line_size\<rparr>)
      else if func_sym = ''/S'' then
        (let st1 = st\<lparr>S := A st mod max_line_size\<rparr>
         in case EStore_set line_pair acc_symbols (e_store st1) of
              (Inl e, memory) \<Rightarrow> (Inl e, st1\<lparr>e_store := memory\<rparr>)
            | (Inr u, memory) \<Rightarrow> (Inr (), st1\<lparr>e_store := memory\<rparr>))
      else if func_sym = ''T/'' then
        (Inr (), st\<lparr>A := s_pair_data mod max_acc_size\<rparr>)
      else if func_sym = ''T:'' then
        (Inr (), st\<lparr>A := 0\<rparr>)
      else if func_sym = ''TI'' then
        (Inr (), st\<lparr>A := A st + s_pair_data mod max_acc_size\<rparr>)
      else if func_sym = ''TN'' then
        (Inr (), st\<lparr>A := A st - s_pair_data mod max_acc_size\<rparr>)
      else if func_sym = ''TF'' then
        (Inl (InvalidInstructionError ''TF currently unimplemented''), st)
      else if func_sym = ''TK'' then
        (Inr (), st\<lparr>A := (s_pair_data * 2) mod max_acc_size\<rparr>)
      else if func_sym = [CHR ''T'', CHR 0xA3] then
        (Inr (), st)
      else
        (Inl (InvalidInstructionError (''Instruction '' @ instr @ '' does not exist!'')), st))"

definition applyInstruction :: "State \<Rightarrow> (exn + unit) \<times> State" where
  "applyInstruction st =
     (let instr = int_to_symbols (S st) (linesize div symbolvalue);
          line_pair = take (shortlinesize div symbolvalue) instr;
          func_sym = drop (shortlinesize div symbolvalue) instr
      in case EStore_get_num (S st mod max_short_line_size) 1 (e_store st) of
           (Inl e, memory) \<Rightarrow> (Inl e, st\<lparr>e_store := memory\<rparr>)
         | (Inr s_data, memory) \<Rightarrow>
             (case EStore_get_num (S st mod max_short_line_size) 2 memory of
                (Inl e, memory') \<Rightarrow> (Inl e, st\<lparr>e_store := memory'\<rparr>)
              | (Inr s_pair_data, memory') \<Rightarrow>
                  execute instr line_pair func_sym (int_to_symbols (A st) max_acc_symbols)
                    s_data s_pair_data (st\<lparr>e_store := memory'\<rparr>)))"

text \<open>\<open>ReducedMachine.next\<close>: fetch, then apply.\<close>

definition next_cycle :: "State \<Rightarrow> (exn + unit) \<times> State" where
  "next_cycle st =
     (case I st of
        (Inl e, st') \<Rightarrow> (Inl e, st')
      | (Inr u, st') \<Rightarrow> applyInstruction st')"

text \<open>
  \<open>ReducedMachine.run(steps)\<close>. The loop may run forever (\<open>steps = 0\<close> is no bound), so
  it is a partial function: \<open>None\<close> is a run that never ends. A run that ends gives how
  it ended, the value of the counter \<open>n\<close> and the state. \<open>n\<close> counts the completed
  cycles before the last one: the loop breaks, or the exception leaves it, before
  \<open>n += 1\<close>.
\<close>

datatype outcome = HaltingLoopDetected | StepsDone | Raised exn

partial_function (option) run_loop :: "int \<Rightarrow> int \<Rightarrow> State \<Rightarrow> (outcome \<times> int \<times> State) option" where
  "run_loop steps n st =
     (if n < steps \<or> steps = 0 then
        (case next_cycle st of
           (Inl e, st') \<Rightarrow> Some (Raised e, n, st')
         | (Inr u, st') \<Rightarrow>
             if C st = C st' then Some (HaltingLoopDetected, n, st')
             else run_loop steps (n + 1) st')
      else Some (StepsDone, n, st))"

declare run_loop.simps [code]

definition run :: "int \<Rightarrow> State \<Rightarrow> (outcome \<times> int \<times> State) option" where
  "run steps st = run_loop steps 0 st"

subsection \<open>Notions used in the statements\<close>

text \<open>
  A well-formed store: every key is a string of exactly 2 symbols and every value a
  string of exactly 4 symbols.
\<close>

definition addr_ok :: "string \<Rightarrow> bool" where
  "addr_ok k \<longleftrightarrow> length k = 2 \<and> set k \<subseteq> set symbols"

definition line_ok :: "string \<Rightarrow> bool" where
  "line_ok v \<longleftrightarrow> length v = 4 \<and> set v \<subseteq> set symbols"

definition store_wf :: "EStore \<Rightarrow> bool" where
  "store_wf memory = list_all (\<lambda>kv. addr_ok (fst kv) \<and> line_ok (snd kv)) memory"

text \<open>
  The integers that a Python float holds exactly, and a state whose three registers are
  such integers. (After a fetch \<open>C\<close> is below \<open>2^10\<close> and \<open>S\<close> below \<open>2^20\<close>, and a
  cycle changes the accumulator by less than \<open>2^40\<close>.)
\<close>

definition exact :: "int \<Rightarrow> bool" where
  "exact x \<longleftrightarrow> - (2 ^ 53) < x \<and> x < 2 ^ 53"

definition State_exact :: "State \<Rightarrow> bool" where
  "State_exact st \<longleftrightarrow> exact (A st) \<and> exact (C st) \<and> exact (S st)"

text \<open>
  The key \<open>newloc\<close> that \<open>set\<close> and \<open>get\<close> compute for the address \<open>a\<close>, the line a read
  of that address returns, and the memory after the read.
\<close>

definition key :: "int \<Rightarrow> string" where
  "key a = int_to_symbols (a mod max_short_line_size) (shortlinesize div symbolvalue)"

definition line_at :: "EStore \<Rightarrow> int \<Rightarrow> string" where
  "line_at memory a = (case map_of memory (key a) of None \<Rightarrow> ''////'' | Some line \<Rightarrow> line)"

definition materialize :: "int \<Rightarrow> EStore \<Rightarrow> EStore" where
  "materialize a memory =
     (case map_of memory (key a) of
        None \<Rightarrow> dict_setitem (key a) ''////'' memory
      | Some line \<Rightarrow> memory)"



text \<open>The ten function codes that \<open>applyInstruction\<close> recognises.\<close>

definition function_codes :: "string list" where
  "function_codes =
     [''/H'', ''/P'', ''/S'', ''T/'', ''T:'', ''TI'', ''TN'', ''TF'', ''TK'', [CHR ''T'', CHR 0xA3]]"

section \<open>The codec\<close>

lemma length_symbols: "length symbols = 32"
  by (simp add: symbols_def)

lemma distinct_symbols: "distinct symbols"
  by (simp add: symbols_def)

lemma symbols_0: "symbols ! 0 = CHR ''/''"
  by (simp add: symbols_def)

lemma zero_in_symbols: "CHR ''/'' \<in> set symbols"
  by (simp add: symbols_def)

lemma index_None_iff: "index xs x = None \<longleftrightarrow> x \<notin> set xs"
  by (induction xs) auto

lemma index_nth: "distinct xs \<Longrightarrow> k < length xs \<Longrightarrow> index xs (xs ! k) = Some k"
proof (induction xs arbitrary: k)
  case Nil
  then show ?case by simp
next
  case (Cons y ys)
  then show ?case by (cases k) auto
qed

lemma index_Some: "index xs x = Some k \<Longrightarrow> k < length xs \<and> xs ! k = x"
  by (induction xs arbitrary: k) (auto split: if_splits)

lemma index_symbols_nth: "k < 32 \<Longrightarrow> index symbols (symbols ! k) = Some k"
  by (simp add: index_nth distinct_symbols length_symbols)

lemma index_symbols_zero: "index symbols (CHR ''/'') = Some 0"
  using index_symbols_nth [of 0] by (simp add: symbols_0)

lemma index_P: "index symbols (CHR ''P'') = Some 22"
  by code_simp

lemma fold_conj: "fold (\<lambda>v correct. correct \<and> v \<in> X) val b \<longleftrightarrow> b \<and> set val \<subseteq> X"
  by (induction val arbitrary: b) auto

lemma valid_iff: "valid val len \<longleftrightarrow> length val \<le> len \<and> set val \<subseteq> set symbols"
  by (auto simp: valid_def fold_conj Let_def)

lemma loop_0: "int_to_symbols_loop 0 = []"
  by (simp add: int_to_symbols_loop.simps)

lemma loop_pos:
  "0 < n \<Longrightarrow> int_to_symbols_loop n = symbols ! (n mod 32) # int_to_symbols_loop (n div 32)"
  by (subst int_to_symbols_loop.simps) (simp add: length_symbols)

lemma loop_set: "set (int_to_symbols_loop n) \<subseteq> set symbols"
proof (induction n rule: int_to_symbols_loop.induct)
  case (1 n)
  show ?case
  proof (cases "n = 0")
    case True
    then show ?thesis by (simp add: loop_0)
  next
    case False
    then have "set (int_to_symbols_loop (n div 32)) \<subseteq> set symbols"
      using 1 by (simp add: length_symbols)
    moreover have "symbols ! (n mod 32) \<in> set symbols"
      by (simp add: length_symbols)
    ultimately show ?thesis using False by (simp add: loop_pos)
  qed
qed

lemma loop_length: "length (int_to_symbols_loop n) \<le> w \<longleftrightarrow> n < 32 ^ w"
proof (induction n arbitrary: w rule: int_to_symbols_loop.induct)
  case (1 n)
  show ?case
  proof (cases "n = 0")
    case True
    then show ?thesis by (simp add: loop_0)
  next
    case False
    then have ih: "\<And>v. length (int_to_symbols_loop (n div 32)) \<le> v \<longleftrightarrow> n div 32 < 32 ^ v"
      using 1 by (simp add: length_symbols)
    show ?thesis
    proof (cases w)
      case 0
      then show ?thesis using False by (simp add: loop_pos)
    next
      case (Suc v)
      have "n div 32 < 32 ^ v \<longleftrightarrow> n < 32 * 32 ^ v"
        by (simp add: less_mult_imp_div_less div_less_iff_less_mult mult.commute)
      then show ?thesis using False Suc ih [of v] by (simp add: loop_pos)
    qed
  qed
qed

lemma fl_exact: "x < 2 ^ 53 \<Longrightarrow> fl x = Finite x"
  by (simp add: fl_def)

lemma float_add_exact:
  "0 \<le> a \<Longrightarrow> 0 \<le> t \<Longrightarrow> a + t < 2 ^ 53 \<Longrightarrow> float_add (Finite a) (fl t) = Finite (a + t)"
  by (simp add: fl_def)

lemma decode_zeros:
  "out < 2 ^ 53 \<Longrightarrow> i + 5 * k \<le> 1028 \<Longrightarrow>
   symbols_to_int_loop i (Finite out) (replicate k (CHR ''/'')) = Inr (Finite out)"
  by (induction k arbitrary: i) (simp_all add: index_symbols_zero fl_def)

lemma decode_loop:
  "0 \<le> out \<Longrightarrow> out + int n * 2 ^ i < 2 ^ 53 \<Longrightarrow>
   i + 5 * (length (int_to_symbols_loop n) + k) \<le> 1028 \<Longrightarrow>
   symbols_to_int_loop i (Finite out) (int_to_symbols_loop n @ replicate k (CHR ''/''))
     = Inr (Finite (out + int n * 2 ^ i))"
proof (induction n arbitrary: i out rule: int_to_symbols_loop.induct)
  case (1 n)
  show ?case
  proof (cases "n = 0")
    case True
    then show ?thesis using "1.prems" by (simp add: loop_0 decode_zeros)
  next
    case False
    then have ih: "\<And>i out. 0 \<le> out \<Longrightarrow> out + int (n div 32) * 2 ^ i < 2 ^ 53 \<Longrightarrow>
        i + 5 * (length (int_to_symbols_loop (n div 32)) + k) \<le> 1028 \<Longrightarrow>
        symbols_to_int_loop i (Finite out) (int_to_symbols_loop (n div 32) @ replicate k (CHR ''/''))
        = Inr (Finite (out + int (n div 32) * 2 ^ i))"
      using "1.IH" by (simp add: length_symbols)
    have split: "int (n mod 32) * 2 ^ i + int (n div 32) * 2 ^ (i + 5) = int n * 2 ^ i"
    proof -
      have "int n = int (n mod 32) + 32 * int (n div 32)"
        by (metis mod_mult_div_eq of_nat_add of_nat_mult of_nat_numeral)
      then show ?thesis by (simp add: power_add algebra_simps)
    qed
    define t where "t = int (n mod 32) * 2 ^ i"
    have t0: "0 \<le> t" by (simp add: t_def)
    have "0 \<le> int (n div 32) * 2 ^ (i + 5)" by simp
    then have tle: "t \<le> int n * 2 ^ i" using split by (simp add: t_def)
    then have small: "out + t < 2 ^ 53" using "1.prems"(2) by simp
    have step: "float_add (Finite out) (fl t) = Finite (out + t)"
      using "1.prems"(1) t0 small by (rule float_add_exact)
    have len: "length (int_to_symbols_loop n) = Suc (length (int_to_symbols_loop (n div 32)))"
      using False by (simp add: loop_pos)
    have i: "\<not> 1024 \<le> i" using "1.prems"(3) len by simp
    have rest: "symbols_to_int_loop (i + 5) (Finite (out + t))
          (int_to_symbols_loop (n div 32) @ replicate k (CHR ''/''))
        = Inr (Finite (out + t + int (n div 32) * 2 ^ (i + 5)))"
    proof (rule ih)
      show "0 \<le> out + t" using "1.prems"(1) t0 by simp
      show "out + t + int (n div 32) * 2 ^ (i + 5) < 2 ^ 53"
        using split "1.prems"(2) by (simp add: t_def)
      show "i + 5 + 5 * (length (int_to_symbols_loop (n div 32)) + k) \<le> 1028"
        using "1.prems"(3) len by simp
    qed
    have "out + t + int (n div 32) * 2 ^ (i + 5) = out + int n * 2 ^ i"
      using split by (simp add: t_def)
    then show ?thesis using False i step rest
      by (simp add: loop_pos index_symbols_nth t_def)
  qed
qed

lemma decode_append:
  "symbols_to_int_loop i out (xs @ ys) =
     (case symbols_to_int_loop i out xs of
        Inl e \<Rightarrow> Inl e
      | Inr out' \<Rightarrow> symbols_to_int_loop (i + 5 * length xs) out' ys)"
  by (induction xs arbitrary: i out) (auto simp: algebra_simps split: option.split sum.split)

lemma loop_nth:
  "i < length (int_to_symbols_loop n) \<Longrightarrow> int_to_symbols_loop n ! i = symbols ! (n div 32 ^ i mod 32)"
proof (induction n arbitrary: i rule: int_to_symbols_loop.induct)
  case (1 n)
  show ?case
  proof (cases "n = 0")
    case True
    then show ?thesis using "1.prems" by (simp add: loop_0)
  next
    case False
    then have ih: "\<And>j. j < length (int_to_symbols_loop (n div 32)) \<Longrightarrow>
        int_to_symbols_loop (n div 32) ! j = symbols ! (n div 32 div 32 ^ j mod 32)"
      using "1.IH" by (simp add: length_symbols)
    show ?thesis
    proof (cases i)
      case 0
      then show ?thesis using False by (simp add: loop_pos)
    next
      case (Suc j)
      then have "j < length (int_to_symbols_loop (n div 32))"
        using "1.prems" False by (simp add: loop_pos)
      then show ?thesis using False Suc ih [of j] by (simp add: loop_pos div_mult2_eq)
    qed
  qed
qed

lemma decode_int_to_symbols:
  assumes "w \<le> 205"
  shows "symbols_to_int (int_to_symbols n w) = Inr (n mod 2 ^ 20)"
proof -
  define m where "m = nat (n mod 2 ^ 20)"
  have m: "int m = n mod 2 ^ 20" by (simp add: m_def)
  have "m < 32 ^ 4" by (simp add: m_def)
  then have len: "length (int_to_symbols_loop m) \<le> 4" by (simp only: loop_length)
  have "n mod 2 ^ 20 < 2 ^ 20" by simp
  then have small: "0 + int m * 2 ^ 0 < (2::int) ^ 53" using m by simp
  have "symbols_to_int_loop 0 (Finite 0)
          (int_to_symbols_loop m @ replicate (w - length (int_to_symbols_loop m)) (CHR ''/''))
        = Inr (Finite (0 + int m * 2 ^ 0))"
    using _ small
  proof (rule decode_loop)
    show "(0::int) \<le> 0" by simp
    show "0 + 5 * (length (int_to_symbols_loop m) + (w - length (int_to_symbols_loop m))) \<le> 1028"
      using len assms by simp
  qed
  then show ?thesis using m
    by (simp add: symbols_to_int_def int_to_symbols_def ljust_def symbols_0 m_def)
qed

lemma length_int_to_symbols:
  "length (int_to_symbols n w) = max w (length (int_to_symbols_loop (nat (n mod 2 ^ 20))))"
  by (simp add: int_to_symbols_def ljust_def)

lemma length_int_to_symbols_eq: "length (int_to_symbols n w) = w \<longleftrightarrow> n mod 2 ^ 20 < 32 ^ w"
proof -
  have "length (int_to_symbols n w) = w \<longleftrightarrow> length (int_to_symbols_loop (nat (n mod 2 ^ 20))) \<le> w"
    by (auto simp: length_int_to_symbols)
  also have "\<dots> \<longleftrightarrow> nat (n mod 2 ^ 20) < 32 ^ w"
    by (rule loop_length)
  also have "\<dots> \<longleftrightarrow> n mod 2 ^ 20 < 32 ^ w"
  proof -
    have "int (nat (n mod 2 ^ 20)) = n mod 2 ^ 20" by simp
    moreover have "int ((32::nat) ^ w) = 32 ^ w" by simp
    ultimately show ?thesis by (metis of_nat_less_iff)
  qed
  finally show ?thesis .
qed

lemma set_int_to_symbols: "set (int_to_symbols n w) \<subseteq> set symbols"
  using loop_set [of "nat (n mod 2 ^ 20)"]
  by (auto simp: int_to_symbols_def ljust_def symbols_0 zero_in_symbols)

lemma int_to_symbols_nth:
  assumes "i < length (int_to_symbols n w)"
  shows "int_to_symbols n w ! i = symbols ! nat (n mod 2 ^ 20 div 32 ^ i mod 32)"
proof -
  define m where "m = nat (n mod 2 ^ 20)"
  have conv: "nat (n mod 2 ^ 20 div 32 ^ i mod 32) = m div 32 ^ i mod 32"
  proof -
    have "n mod 2 ^ 20 = int m" by (simp add: m_def)
    then have "n mod 2 ^ 20 div 32 ^ i mod 32 = int (m div 32 ^ i mod 32)"
      by (simp add: zdiv_int zmod_int)
    then show ?thesis by simp
  qed
  have its: "int_to_symbols n w = int_to_symbols_loop m @ replicate (w - length (int_to_symbols_loop m)) (symbols ! 0)"
    by (simp add: int_to_symbols_def ljust_def m_def)
  show ?thesis
  proof (cases "i < length (int_to_symbols_loop m)")
    case True
    then show ?thesis
      using loop_nth [of i m] conv by (simp add: its nth_append)
  next
    case False
    then have "length (int_to_symbols_loop m) \<le> i" by simp
    then have "m < 32 ^ i" by (simp add: loop_length)
    then have "m div 32 ^ i mod 32 = 0" by simp
    moreover have "i - length (int_to_symbols_loop m) < w - length (int_to_symbols_loop m)"
      using False assms by (simp add: its)
    then have "int_to_symbols n w ! i = symbols ! 0"
      using False by (simp add: its nth_append)
    ultimately show ?thesis using conv by simp
  qed
qed

lemma enc_cons:
  assumes "k < 32" and "symbols ! k = c"
    and "int_to_symbols_loop m @ replicate (length cs - length (int_to_symbols_loop m)) (CHR ''/'') = cs"
  shows "int_to_symbols_loop (k + 32 * m)
           @ replicate (length (c # cs) - length (int_to_symbols_loop (k + 32 * m))) (CHR ''/'') = c # cs"
proof (cases "k + 32 * m = 0")
  case True
  then have "k = 0" "m = 0" by simp_all
  then have "c = CHR ''/''" "cs = replicate (length cs) (CHR ''/'')"
    using assms(2,3) by (simp_all add: symbols_0 loop_0)
  then show ?thesis using True
    by (metis append_Nil diff_zero length_Cons list.size(3) loop_0 replicate_Suc)
next
  case False
  have "(k + 32 * m) mod 32 = k" "(k + 32 * m) div 32 = m" using assms(1) by simp_all
  then have "int_to_symbols_loop (k + 32 * m) = c # int_to_symbols_loop m"
    using False assms(2) by (simp add: loop_pos)
  then show ?thesis using assms(3) by simp
qed

lemma decode_valid:
  "set s \<subseteq> set symbols \<Longrightarrow> 0 \<le> out \<Longrightarrow> out < 2 ^ i \<Longrightarrow> i + 5 * length s \<le> 53 \<Longrightarrow>
   \<exists>m. symbols_to_int_loop i (Finite out) s = Inr (Finite (out + int m * 2 ^ i)) \<and> m < 32 ^ length s \<and>
       int_to_symbols_loop m @ replicate (length s - length (int_to_symbols_loop m)) (CHR ''/'') = s"
proof (induction s arbitrary: i out)
  case Nil
  show ?case by (rule exI [of _ 0]) (simp add: loop_0)
next
  case (Cons c cs)
  from Cons.prems have "c \<in> set symbols" by simp
  then obtain k where k: "index symbols c = Some k"
    using index_None_iff [of symbols c] by (cases "index symbols c") auto
  then have k32: "k < 32" and ck: "symbols ! k = c"
    using index_Some [OF k] by (simp_all add: length_symbols)
  define t where "t = int k * 2 ^ i"
  have t0: "0 \<le> t" by (simp add: t_def)
  have i: "i + 5 \<le> 53" "\<not> 1024 \<le> i" using Cons.prems(4) by simp_all
  have "int k \<le> 31" using k32 by simp
  then have "t \<le> 31 * 2 ^ i" unfolding t_def by (rule mult_right_mono) simp
  then have lt: "out + t < 2 ^ (i + 5)" using Cons.prems(3) by (simp add: power_add)
  have "(2::int) ^ (i + 5) \<le> 2 ^ 53" using i(1) by (intro power_increasing) simp_all
  then have small: "out + t < 2 ^ 53" using lt by simp
  have step: "float_add (Finite out) (fl t) = Finite (out + t)"
    using Cons.prems(2) t0 small by (rule float_add_exact)
  from Cons.prems have "set cs \<subseteq> set symbols" by simp
  moreover have "0 \<le> out + t" using Cons.prems(2) t0 by simp
  moreover note lt
  moreover have "i + 5 + 5 * length cs \<le> 53" using Cons.prems(4) by simp
  ultimately have "\<exists>m. symbols_to_int_loop (i + 5) (Finite (out + t)) cs
        = Inr (Finite (out + t + int m * 2 ^ (i + 5))) \<and> m < 32 ^ length cs \<and>
        int_to_symbols_loop m @ replicate (length cs - length (int_to_symbols_loop m)) (CHR ''/'') = cs"
    by (rule Cons.IH)
  then obtain m where m: "symbols_to_int_loop (i + 5) (Finite (out + t)) cs
        = Inr (Finite (out + t + int m * 2 ^ (i + 5)))"
      and mlt: "m < 32 ^ length cs"
      and menc: "int_to_symbols_loop m @ replicate (length cs - length (int_to_symbols_loop m)) (CHR ''/'') = cs"
    by blast
  define n where "n = k + 32 * m"
  have "out + t + int m * 2 ^ (i + 5) = out + int n * 2 ^ i"
    by (simp add: n_def t_def power_add algebra_simps)
  then have 1: "symbols_to_int_loop i (Finite out) (c # cs) = Inr (Finite (out + int n * 2 ^ i))"
    using k i(2) step m by (simp add: t_def)
  have 2: "n < 32 ^ length (c # cs)"
    using k32 mlt by (simp add: n_def)
  have 3: "int_to_symbols_loop n @ replicate (length (c # cs) - length (int_to_symbols_loop n)) (CHR ''/'') = c # cs"
    unfolding n_def using k32 ck menc by (rule enc_cons)
  from 1 2 3 show ?case by blast
qed

lemma decode_string:
  assumes "set s \<subseteq> set symbols" and "length s \<le> 10"
  obtains m where "symbols_to_int s = Inr (int m)" "m < 32 ^ length s"
    "int_to_symbols_loop m @ replicate (length s - length (int_to_symbols_loop m)) (CHR ''/'') = s"
proof -
  have "\<exists>m. symbols_to_int_loop 0 (Finite 0) s = Inr (Finite (0 + int m * 2 ^ 0)) \<and> m < 32 ^ length s \<and>
       int_to_symbols_loop m @ replicate (length s - length (int_to_symbols_loop m)) (CHR ''/'') = s"
    using assms(1)
  proof (rule decode_valid)
    show "(0::int) \<le> 0" "(0::int) < 2 ^ 0" by simp_all
    show "0 + 5 * length s \<le> 53" using assms(2) by simp
  qed
  then show ?thesis using that by (auto simp: symbols_to_int_def)
qed

lemma bit_length_bounds: "0 < x \<Longrightarrow> 2 ^ (bit_length x - 1) \<le> x \<and> x < 2 ^ bit_length x"
proof (induction x rule: bit_length.induct)
  case (1 x)
  have L: "bit_length x = Suc (bit_length (x div 2))"
    using "1.prems" by (subst bit_length.simps) simp
  show ?case
  proof (cases "x = 1")
    case True
    have "bit_length 0 = 0" by (subst bit_length.simps) simp
    then show ?thesis using True L by simp
  next
    case False
    then have pos: "0 < x div 2" using "1.prems" by simp
    then have ih: "2 ^ (bit_length (x div 2) - 1) \<le> x div 2" "x div 2 < 2 ^ bit_length (x div 2)"
      using "1.IH" "1.prems" by simp_all
    have "bit_length (x div 2) = Suc (bit_length (x div 2 div 2))"
      using pos by (subst bit_length.simps) simp
    then have "(2::int) ^ bit_length (x div 2) = 2 * 2 ^ (bit_length (x div 2) - 1)" by simp
    then have lo: "2 ^ bit_length (x div 2) \<le> x" using ih(1) by simp
    have hi: "x < 2 * 2 ^ bit_length (x div 2)" using ih(2) by simp
    show ?thesis using lo hi by (simp add: L)
  qed
qed

lemma fl_large:
  assumes "2 ^ 53 \<le> x" and "fl x = Finite y"
  shows "2 ^ 53 \<le> y"
proof -
  define e where "e = bit_length x - 53"
  define q where "q = x div 2 ^ e"
  define Y where "Y = (if 2 ^ e < 2 * (x mod 2 ^ e) \<or> (2 * (x mod 2 ^ e) = 2 ^ e \<and> odd q)
      then (q + 1) * 2 ^ e else q * 2 ^ e)"
  have x0: "0 < x" using assms(1) by simp
  from bit_length_bounds [OF x0] have lo: "2 ^ (bit_length x - 1) \<le> x" and hi: "x < 2 ^ bit_length x"
    by simp_all
  have "(2::int) ^ 53 < 2 ^ bit_length x" using assms(1) hi by simp
  then have "53 < bit_length x" by (rule power_less_imp_less_exp [rotated]) simp
  then have e1: "1 \<le> e" and be: "bit_length x - 1 = 52 + e" by (simp_all add: e_def)
  have "(2::int) ^ 52 * 2 ^ e \<le> x" using lo be by (simp add: power_add)
  then have "(2 ^ 52 * 2 ^ e) div 2 ^ e \<le> x div (2::int) ^ e" by (intro zdiv_mono1) simp_all
  then have q52: "2 ^ 52 \<le> q" by (simp add: q_def)
  have "(2::int) ^ 1 \<le> 2 ^ e" using e1 by (intro power_increasing) simp_all
  then have "(2::int) ^ 52 * 2 \<le> q * 2 ^ e" using q52 by (intro mult_mono) simp_all
  then have qe: "2 ^ 53 \<le> q * 2 ^ e" by simp
  have "q * 2 ^ e \<le> (q + 1) * 2 ^ e" by (intro mult_right_mono) simp_all
  with qe have qe1: "2 ^ 53 \<le> (q + 1) * 2 ^ e" by (rule order_trans)
  have Y53: "2 ^ 53 \<le> Y" using qe qe1 by (simp add: Y_def)
  have nx: "\<not> x < 2 ^ 53" using assms(1) by simp
  have "fl x = (if Y < 2 ^ 1024 then Finite Y else Infinity)"
    unfolding fl_def Let_def Y_def q_def e_def using nx by (simp only: if_False)
  with assms(2) have "y = Y" by (cases "Y < 2 ^ 1024") simp_all
  then show ?thesis using Y53 by simp
qed

lemma fl_nonneg:
  assumes "0 \<le> x" and "fl x = Finite y"
  shows "0 \<le> y"
proof (cases "x < 2 ^ 53")
  case True
  then have "fl x = Finite x" by (rule fl_exact)
  then show ?thesis using assms by simp
next
  case False
  then have "2 ^ 53 \<le> x" by simp
  then have "2 ^ 53 \<le> y" using assms(2) by (rule fl_large)
  then show ?thesis by simp
qed

lemma float_add_large:
  assumes "0 \<le> a" and "0 \<le> t" and "2 ^ 53 \<le> a + t" and "float_add (Finite a) (fl t) = Finite y"
  shows "2 ^ 53 \<le> y"
proof (cases "fl t")
  case Infinity
  then show ?thesis using assms(4) by simp
next
  case (Finite t')
  then have y: "fl (a + t') = Finite y" using assms(4) by simp
  have "2 ^ 53 \<le> a + t'"
  proof (cases "t < 2 ^ 53")
    case True
    then have "t' = t" using Finite by (simp add: fl_exact)
    then show ?thesis using assms(3) by simp
  next
    case False
    then have "2 ^ 53 \<le> t" by simp
    then have "2 ^ 53 \<le> t'" using Finite by (rule fl_large)
    then show ?thesis using assms(1) by simp
  qed
  then show ?thesis using y by (rule fl_large)
qed

lemma decode_large:
  "symbols_to_int_loop i acc s = Inr r \<Longrightarrow> (\<forall>a. acc = Finite a \<longrightarrow> 2 ^ 53 \<le> a) \<Longrightarrow>
   r = Finite y \<Longrightarrow> 2 ^ 53 \<le> y"
proof (induction s arbitrary: i acc)
  case Nil
  then show ?case by simp
next
  case (Cons c cs)
  from Cons.prems(1) obtain k where k: "index symbols c = Some k"
    by (cases "index symbols c") simp_all
  define t where "t = int k * 2 ^ i"
  have t0: "0 \<le> t" by (simp add: t_def)
  from Cons.prems(1) k have rest: "symbols_to_int_loop (i + 5) (float_add acc (fl t)) cs = Inr r"
    by (simp add: t_def split: if_splits)
  have "\<forall>a. float_add acc (fl t) = Finite a \<longrightarrow> 2 ^ 53 \<le> a"
  proof (intro allI impI)
    fix a assume a: "float_add acc (fl t) = Finite a"
    then obtain b where b: "acc = Finite b" by (cases acc) simp_all
    then have "2 ^ 53 \<le> b" using Cons.prems(2) by simp
    then have b0: "0 \<le> b" and bt: "2 ^ 53 \<le> b + t" using t0 by simp_all
    from a b have "float_add (Finite b) (fl t) = Finite a" by simp
    with b0 t0 bt show "2 ^ 53 \<le> a" by (rule float_add_large)
  qed
  with rest show ?case using Cons.prems(3) by (rule Cons.IH)
qed

lemma decode_exact:
  "symbols_to_int_loop i (Finite out) s = Inr (Finite m) \<Longrightarrow> 0 \<le> out \<Longrightarrow> m < 2 ^ 53 \<Longrightarrow>
   \<exists>v. m = out + int v * 2 ^ i \<and>
       int_to_symbols_loop v @ replicate (length s - length (int_to_symbols_loop v)) (CHR ''/'') = s"
proof (induction s arbitrary: i out)
  case Nil
  then have "m = out + int 0 * 2 ^ i" by simp
  then show ?case by (intro exI [of _ 0]) (simp add: loop_0)
next
  case (Cons c cs)
  from Cons.prems(1) obtain k where k: "index symbols c = Some k"
    by (cases "index symbols c") simp_all
  then have k32: "k < 32" and ck: "symbols ! k = c"
    using index_Some [OF k] by (simp_all add: length_symbols)
  define t where "t = int k * 2 ^ i"
  have t0: "0 \<le> t" by (simp add: t_def)
  from Cons.prems(1) k have rest: "symbols_to_int_loop (i + 5) (float_add (Finite out) (fl t)) cs = Inr (Finite m)"
    by (simp add: t_def split: if_splits)
  have small: "out + t < 2 ^ 53"
  proof (rule ccontr)
    assume "\<not> out + t < 2 ^ 53"
    then have big: "2 ^ 53 \<le> out + t" by simp
    have "\<forall>a. float_add (Finite out) (fl t) = Finite a \<longrightarrow> 2 ^ 53 \<le> a"
      using float_add_large [OF Cons.prems(2) t0 big] by blast
    with rest have "2 ^ 53 \<le> m" by (rule decode_large) simp
    then show False using Cons.prems(3) by simp
  qed
  have step: "float_add (Finite out) (fl t) = Finite (out + t)"
    using Cons.prems(2) t0 small by (rule float_add_exact)
  have "0 \<le> out + t" using Cons.prems(2) t0 by simp
  with rest [unfolded step] have "\<exists>v. m = out + t + int v * 2 ^ (i + 5) \<and>
       int_to_symbols_loop v @ replicate (length cs - length (int_to_symbols_loop v)) (CHR ''/'') = cs"
    using Cons.prems(3) by (rule Cons.IH)
  then obtain v where v: "m = out + t + int v * 2 ^ (i + 5)"
      and venc: "int_to_symbols_loop v @ replicate (length cs - length (int_to_symbols_loop v)) (CHR ''/'') = cs"
    by blast
  have "m = out + int (k + 32 * v) * 2 ^ i"
    using v by (simp add: t_def power_add algebra_simps)
  moreover have "int_to_symbols_loop (k + 32 * v)
      @ replicate (length (c # cs) - length (int_to_symbols_loop (k + 32 * v))) (CHR ''/'') = c # cs"
    using k32 ck venc by (rule enc_cons)
  ultimately show ?case by blast
qed

lemma decode_overflow:
  "set s \<subseteq> set symbols \<Longrightarrow> s \<noteq> [] \<Longrightarrow> 1024 \<le> i + 5 * (length s - 1) \<Longrightarrow>
   symbols_to_int_loop i acc s = Inl OverflowError"
proof (induction s arbitrary: i acc)
  case Nil
  then show ?case by simp
next
  case (Cons c cs)
  from Cons.prems have "c \<in> set symbols" by simp
  then obtain k where k: "index symbols c = Some k"
    using index_None_iff [of symbols c] by (cases "index symbols c") auto
  show ?case
  proof (cases "1024 \<le> i")
    case True
    then show ?thesis using k by simp
  next
    case False
    then have "cs \<noteq> []" using Cons.prems(3) by auto
    moreover from this have "1024 \<le> i + 5 + 5 * (length cs - 1)"
      using Cons.prems(3) by (cases cs) simp_all
    moreover have "set cs \<subseteq> set symbols" using Cons.prems(1) by simp
    ultimately have "symbols_to_int_loop (i + 5) (float_add acc (fl (int k * 2 ^ i))) cs = Inl OverflowError"
      by (intro Cons.IH)
    then show ?thesis using k False by simp
  qed
qed

lemma decode_too_long:
  assumes "set s \<subseteq> set symbols" and "205 < length s"
  shows "symbols_to_int s = Inl OverflowError"
proof -
  have "s \<noteq> []" using assms(2) by auto
  moreover have "1024 \<le> 0 + 5 * (length s - 1)" using assms(2) by simp
  ultimately have "symbols_to_int_loop 0 (Finite 0) s = Inl OverflowError"
    using assms(1) by (intro decode_overflow)
  then show ?thesis by (simp add: symbols_to_int_def)
qed

lemma decode_small:
  assumes "symbols_to_int s = Inr m" and "m < 2 ^ 20"
  shows "int_to_symbols m (length s) = s" and "0 \<le> m"
proof -
  from assms(1) have loop: "symbols_to_int_loop 0 (Finite 0) s = Inr (Finite m)"
    by (auto simp: symbols_to_int_def split: sum.splits pyfloat.splits)
  have "m < 2 ^ 53" using assms(2) by simp
  with loop have "\<exists>v. m = 0 + int v * 2 ^ 0 \<and>
       int_to_symbols_loop v @ replicate (length s - length (int_to_symbols_loop v)) (CHR ''/'') = s"
    by (intro decode_exact) simp_all
  then obtain v where v: "m = int v"
      and venc: "int_to_symbols_loop v @ replicate (length s - length (int_to_symbols_loop v)) (CHR ''/'') = s"
    by auto
  show "0 \<le> m" using v by simp
  have "m mod 2 ^ 20 = m" using v assms(2) by simp
  then have "nat (m mod 2 ^ 20) = v" using v by simp
  then show "int_to_symbols m (length s) = s"
    using venc by (simp add: int_to_symbols_def ljust_def symbols_0)
qed

lemma decode_Inr_iff: "symbols_to_int s = Inr n \<longleftrightarrow> symbols_to_int_loop 0 (Finite 0) s = Inr (Finite n)"
  by (auto simp: symbols_to_int_def split: sum.splits pyfloat.splits)

lemma decode_zero_line: "symbols_to_int ''////'' = Inr 0"
  by code_simp

lemma encode_decode:
  assumes "set s \<subseteq> set symbols" "length s \<le> 4" "length s \<le> w" "symbols_to_int s = Inr n"
  shows "int_to_symbols n w = s @ replicate (w - length s) (CHR ''/'')" and "0 \<le> n" and "n < 32 ^ length s"
proof -
  from assms(2) have "length s \<le> 10" by simp
  from decode_string [OF assms(1) this] obtain m where m: "symbols_to_int s = Inr (int m)"
      and mlt: "m < 32 ^ length s"
      and menc: "int_to_symbols_loop m @ replicate (length s - length (int_to_symbols_loop m)) (CHR ''/'') = s"
    by blast
  from m assms(4) have n: "n = int m" by simp
  have "(32::nat) ^ length s \<le> 32 ^ 4" using assms(2) by (intro power_increasing) simp_all
  then have m20: "m < 2 ^ 20" using mlt by simp
  then have "n mod 2 ^ 20 = n" using n by simp
  then have "nat (n mod 2 ^ 20) = m" using n by simp
  then have its: "int_to_symbols n w = int_to_symbols_loop m @ replicate (w - length (int_to_symbols_loop m)) (CHR ''/'')"
    by (simp add: int_to_symbols_def ljust_def symbols_0)
  have len: "length (int_to_symbols_loop m) \<le> length s" using mlt by (simp add: loop_length)
  have "replicate (w - length (int_to_symbols_loop m)) (CHR ''/'')
      = replicate (length s - length (int_to_symbols_loop m)) (CHR ''/'') @ replicate (w - length s) (CHR ''/'')"
    using len assms(3) by (simp add: replicate_add [symmetric])
  then have "int_to_symbols_loop m @ replicate (w - length (int_to_symbols_loop m)) (CHR ''/'')
      = s @ replicate (w - length s) (CHR ''/'')"
    using menc by (metis append.assoc)
  then show "int_to_symbols n w = s @ replicate (w - length s) (CHR ''/'')"
    by (simp add: its)
  show "0 \<le> n" using n by simp
  show "n < 32 ^ length s" using n mlt by (metis of_nat_less_iff of_nat_numeral of_nat_power)
qed

lemma length_instr: "length (int_to_symbols s 4) = 4"
  by (simp add: length_int_to_symbols_eq)

lemma acc_symbols_split: "int_to_symbols v 8 = int_to_symbols v 4 @ ''////''"
proof -
  let ?d = "int_to_symbols_loop (nat (v mod 2 ^ 20))"
  have "nat (v mod 2 ^ 20) < 32 ^ 4" by simp
  then have "length ?d \<le> 4" by (simp only: loop_length)
  then have "replicate (8 - length ?d) (CHR ''/'') = replicate (4 - length ?d) (CHR ''/'') @ replicate 4 (CHR ''/'')"
    by (simp add: replicate_add [symmetric])
  then show ?thesis
    by (simp add: int_to_symbols_def ljust_def symbols_0 numeral_eq_Suc)
qed

subsection \<open>Round trip and shape of the encoding\<close>

text \<open>
  Claim C4, as the code has it. For every integer \<open>n\<close> from 0 up to \<open>2^20 - 1\<close> and
  every width \<open>w\<close> up to 205 (so for every such \<open>w\<close> that holds \<open>n\<close>, too), decoding
  \<open>int_to_symbols n w\<close> gives \<open>n\<close>. For every string \<open>s\<close> that decodes to a value
  \<open>m\<close>, encoding \<open>m\<close> to \<open>len(s)\<close> symbols gives \<open>s\<close> back if and only if
  \<open>m < 2^20\<close>; every string of at most 4 symbols decodes to such a value, so the law
  holds for it. The first law stops at 205 symbols because the decoder raises
  \<open>OverflowError\<close> at the 206th symbol of any string. The second law stops at \<open>2^20\<close>
  because \<open>int_to_symbols\<close> reduces its argument modulo \<open>2^20\<close>, the value range of
  4 symbols.
\<close>

theorem codec_round_trip:
  "(0 \<le> n \<and> n < 2 ^ 20 \<and> w \<le> 205 \<longrightarrow> symbols_to_int (int_to_symbols n w) = Inr n) \<and>
   (symbols_to_int s = Inr m \<longrightarrow> (int_to_symbols m (length s) = s \<longleftrightarrow> m < 2 ^ 20)) \<and>
   (valid s 4 \<longrightarrow> (\<exists>m. symbols_to_int s = Inr m \<and> m < 2 ^ 20 \<and> int_to_symbols m (length s) = s))"
proof (intro conjI impI)
  assume "0 \<le> n \<and> n < 2 ^ 20 \<and> w \<le> 205"
  then have "n mod 2 ^ 20 = n" and "w \<le> 205" by simp_all
  then show "symbols_to_int (int_to_symbols n w) = Inr n"
    using decode_int_to_symbols [of w n] by simp
next
  assume dec: "symbols_to_int s = Inr m"
  show "int_to_symbols m (length s) = s \<longleftrightarrow> m < 2 ^ 20"
  proof
    assume enc: "int_to_symbols m (length s) = s"
    have "set s \<subseteq> set symbols" using set_int_to_symbols [of m "length s"] enc by simp
    then have "length s \<le> 205" using decode_too_long [of s] dec by (cases "205 < length s") simp_all
    then have "symbols_to_int (int_to_symbols m (length s)) = Inr (m mod 2 ^ 20)"
      by (rule decode_int_to_symbols)
    then have "m = m mod 2 ^ 20" using enc dec by simp
    moreover have "m mod 2 ^ 20 < 2 ^ 20" by simp
    ultimately show "m < 2 ^ 20" by simp
  next
    assume "m < 2 ^ 20"
    with dec show "int_to_symbols m (length s) = s" by (rule decode_small(1))
  qed
next
  assume "valid s 4"
  then have s: "set s \<subseteq> set symbols" and l: "length s \<le> 4" by (simp_all add: valid_iff)
  from l have "length s \<le> 10" by simp
  from decode_string [OF s this] obtain m where m: "symbols_to_int s = Inr (int m)"
    and lt: "m < 32 ^ length s" by blast
  from encode_decode(1) [OF s l order_refl m]
  have "int_to_symbols (int m) (length s) = s" by simp
  have "(32::nat) ^ length s \<le> 32 ^ 4" using l by (intro power_increasing) simp_all
  then have "m < 2 ^ 20" using lt by simp
  then have "int m < 2 ^ 20" by simp
  with m \<open>int_to_symbols (int m) (length s) = s\<close>
  show "\<exists>m. symbols_to_int s = Inr m \<and> m < 2 ^ 20 \<and> int_to_symbols m (length s) = s" by blast
qed

theorem codec_round_trip_witness:
  "symbols_to_int (int_to_symbols 1000 2) = Inr 1000 \<and>
   int_to_symbols 720897 (length ''E//P'') = ''E//P'' \<and>
   (\<exists>m. symbols_to_int ''E//P'' = Inr m \<and> m < 2 ^ 20 \<and> int_to_symbols m (length ''E//P'') = ''E//P'')"
proof -
  have h: "valid ''E//P'' 4" by code_simp
  have d: "symbols_to_int ''E//P'' = Inr 720897" by code_simp
  show ?thesis using codec_round_trip [of 1000 2 "''E//P''" 720897] h d by simp
qed

theorem codec_round_trip_counterexample:
  "symbols_to_int (int_to_symbols 5 206) = Inl OverflowError \<and>
   symbols_to_int ''////E'' = Inr 1048576 \<and> int_to_symbols 1048576 (length ''////E'') = ''/////'' \<and>
   ''/////'' \<noteq> ''////E''"
proof -
  have "length (int_to_symbols 5 206) = 206" by (simp add: length_int_to_symbols_eq)
  then have "symbols_to_int (int_to_symbols 5 206) = Inl OverflowError"
    using set_int_to_symbols [of 5 206] by (intro decode_too_long) simp_all
  moreover have "symbols_to_int ''////E'' = Inr 1048576 \<and>
      int_to_symbols 1048576 (length ''////E'') = ''/////'' \<and> ''/////'' \<noteq> ''////E''"
    by code_simp
  ultimately show ?thesis by simp
qed

text \<open>
  Claim C5, as the code has it. For every integer \<open>n\<close> with \<open>0 \<le> n < 2^53\<close> (the
  range on which the float arithmetic of \<open>int_to_symbols\<close> is exact) and every width
  \<open>w\<close>, the result of \<open>int_to_symbols n w\<close> has at least \<open>w\<close> symbols and at most
  \<open>max w 4\<close>; it has exactly \<open>w\<close> symbols if and only if \<open>n mod 2^20 < 32^w\<close>. Its
  length is the larger of \<open>w\<close> and the number of base-32 digits of \<open>n mod 2^20\<close>: it
  is at most \<open>d\<close> exactly when \<open>w \<le> d\<close> and \<open>n mod 2^20 < 32^d\<close>. Its symbol at
  position \<open>i\<close> is the base-32 digit \<open>i\<close> of \<open>n mod 2^20\<close>, least significant first,
  so the padding is the zero symbol and no symbol is ever dropped: \<open>ljust\<close> pads and
  never truncates. For \<open>w\<close> up to 205, the longest string the decoder takes, the
  result decodes to \<open>n mod 2^20\<close>.
\<close>

theorem int_to_symbols_shape:
  assumes "0 \<le> n" and "n < 2 ^ 53"
  shows "w \<le> length (int_to_symbols n w) \<and>
         length (int_to_symbols n w) \<le> max w 4 \<and>
         (length (int_to_symbols n w) = w \<longleftrightarrow> n mod 2 ^ 20 < 32 ^ w) \<and>
         (\<forall>d. length (int_to_symbols n w) \<le> d \<longleftrightarrow> w \<le> d \<and> n mod 2 ^ 20 < 32 ^ d) \<and>
         (\<forall>i < length (int_to_symbols n w).
            int_to_symbols n w ! i = symbols ! nat (n mod 2 ^ 20 div 32 ^ i mod 32)) \<and>
         (w \<le> 205 \<longrightarrow> symbols_to_int (int_to_symbols n w) = Inr (n mod 2 ^ 20))"
proof -
  have "nat (n mod 2 ^ 20) < 32 ^ 4" by simp
  then have "length (int_to_symbols_loop (nat (n mod 2 ^ 20))) \<le> 4"
    by (simp only: loop_length)
  then have 1: "length (int_to_symbols n w) \<le> max w 4" "w \<le> length (int_to_symbols n w)"
    by (simp_all add: length_int_to_symbols)
  have 2: "length (int_to_symbols n w) \<le> d \<longleftrightarrow> w \<le> d \<and> n mod 2 ^ 20 < 32 ^ d" for d
  proof -
    have "length (int_to_symbols n w) \<le> d \<longleftrightarrow>
        w \<le> d \<and> length (int_to_symbols_loop (nat (n mod 2 ^ 20))) \<le> d"
      by (simp add: length_int_to_symbols)
    also have "length (int_to_symbols_loop (nat (n mod 2 ^ 20))) \<le> d \<longleftrightarrow> nat (n mod 2 ^ 20) < 32 ^ d"
      by (rule loop_length)
    also have "nat (n mod 2 ^ 20) < 32 ^ d \<longleftrightarrow> n mod 2 ^ 20 < 32 ^ d"
    proof -
      have "int (nat (n mod 2 ^ 20)) = n mod 2 ^ 20" by simp
      moreover have "int ((32::nat) ^ d) = 32 ^ d" by simp
      ultimately show ?thesis by (metis of_nat_less_iff)
    qed
    finally show ?thesis .
  qed
  have 3: "length (int_to_symbols n w) = w \<longleftrightarrow> n mod 2 ^ 20 < 32 ^ w"
    by (rule length_int_to_symbols_eq)
  have 4: "\<forall>i < length (int_to_symbols n w).
            int_to_symbols n w ! i = symbols ! nat (n mod 2 ^ 20 div 32 ^ i mod 32)"
    by (simp add: int_to_symbols_nth)
  have 5: "w \<le> 205 \<longrightarrow> symbols_to_int (int_to_symbols n w) = Inr (n mod 2 ^ 20)"
    by (simp add: decode_int_to_symbols)
  from 1 2 3 4 5 show ?thesis by blast
qed

theorem int_to_symbols_shape_witness:
  "2 \<le> length (int_to_symbols 1024 2) \<and> length (int_to_symbols 1024 2) \<le> 4 \<and>
   length (int_to_symbols 1024 2) \<noteq> 2 \<and> length (int_to_symbols 1024 2) \<le> 3 \<and>
   int_to_symbols 1024 2 ! 2 = symbols ! 1 \<and>
   symbols_to_int (int_to_symbols 1024 2) = Inr 1024"
proof -
  have len: "2 < length (int_to_symbols 1024 2)" by code_simp
  have "(0::int) \<le> 1024" "(1024::int) < 2 ^ 53" by simp_all
  from int_to_symbols_shape [OF this, of 2] len show ?thesis by simp
qed

theorem int_to_symbols_shape_counterexample:
  "int_to_symbols 1024 2 = ''//E'' \<and> length (int_to_symbols 1024 2) = 3"
  by code_simp
section \<open>The electronic store\<close>

lemma dict_setitem_set: "set (dict_setitem k v m) \<subseteq> insert (k, v) (set m)"
  by (induction m) auto

lemma map_of_dict_setitem: "map_of (dict_setitem k v m) = (map_of m)(k \<mapsto> v)"
  by (induction m) (auto simp: fun_eq_iff)

lemma dict_setitem_new: "map_of m k = None \<Longrightarrow> dict_setitem k v m = m @ [(k, v)]"
  by (induction m) (auto split: if_splits)

lemma store_wf_iff: "store_wf m \<longleftrightarrow> (\<forall>kv \<in> set m. addr_ok (fst kv) \<and> line_ok (snd kv))"
  by (simp add: store_wf_def list_all_iff)

lemma store_wf_setitem: "store_wf m \<Longrightarrow> addr_ok k \<Longrightarrow> line_ok v \<Longrightarrow> store_wf (dict_setitem k v m)"
  using dict_setitem_set [of k v m] by (auto simp: store_wf_iff)

lemma store_wf_lookup: "store_wf m \<Longrightarrow> map_of m k = Some v \<Longrightarrow> line_ok v"
proof -
  assume wf: "store_wf m" and "map_of m k = Some v"
  then have "(k, v) \<in> set m" by (simp add: map_of_SomeD)
  then show "line_ok v" using wf by (force simp: store_wf_iff)
qed

lemma addr_ok_key: "addr_ok (key a)"
proof -
  have "a mod 1024 mod 2 ^ 20 = a mod 1024"
    by (simp add: mod_mod_cancel)
  moreover have "a mod 1024 < 32 ^ 2" by simp
  ultimately have "length (int_to_symbols (a mod 1024) 2) = 2"
    by (simp add: length_int_to_symbols_eq)
  then show ?thesis
    using set_int_to_symbols [of "a mod 1024" 2] by (simp add: addr_ok_def key_def)
qed

lemma key_mod: "key (a mod 1024) = key a"
  by (simp add: key_def)

lemma key_mod_add: "key (a mod 1024 + b) = key (a + b)"
  by (simp add: key_def mod_add_left_eq)

lemma valid_key: "valid (key a) 2"
  using addr_ok_key [of a] by (simp add: valid_iff addr_ok_def)

lemma key_small: "0 \<le> a \<Longrightarrow> a < 1024 \<Longrightarrow> int_to_symbols a 2 = key a"
  by (simp add: key_def)

lemma length_key: "length (key a) = 2"
  using addr_ok_key [of a] by (simp add: addr_ok_def)

lemma decode_key: "symbols_to_int (key a) = Inr (a mod 1024)"
  by (simp add: key_def decode_int_to_symbols mod_mod_cancel)

lemma key_inj: "key a = key b \<Longrightarrow> a mod 1024 = b mod 1024"
  using decode_key [of a] decode_key [of b] by simp

lemma key_succ_neq: "key (a + 1) \<noteq> key a"
proof
  assume "key (a + 1) = key a"
  then have eq: "(a + 1) mod 1024 = a mod 1024" by (rule key_inj)
  have "(a + 1 - a) mod 1024 = ((a + 1) mod 1024 - a mod 1024) mod 1024"
    by (simp only: mod_diff_eq)
  then show False using eq by simp
qed

lemma line_ok_default: "line_ok ''////''"
  by (simp add: line_ok_def zero_in_symbols)

lemma line_ok_instr: "line_ok (int_to_symbols s 4)"
  using set_int_to_symbols [of s 4] by (simp add: line_ok_def length_instr)

lemma get_line_eq:
  "get_line loc_int i om = (fst om @ line_at (snd om) (loc_int + int i), materialize (loc_int + int i) (snd om))"
  by (simp add: get_line_def line_at_def materialize_def key_def split: option.split)

lemma map_of_materialize:
  "map_of (materialize a m) k = (if map_of m k = None \<and> k = key a then Some ''////'' else map_of m k)"
  by (auto simp: materialize_def map_of_dict_setitem split: option.split)

lemma line_at_materialize: "line_at (materialize a m) b = line_at m b"
  by (auto simp: line_at_def map_of_materialize split: option.split)

lemma materialize_idem: "materialize a (materialize a m) = materialize a m"
  by (auto simp: materialize_def map_of_dict_setitem split: option.split)

lemma materialize_present: "map_of m (key a) = Some v \<Longrightarrow> materialize a m = m"
  by (simp add: materialize_def)

lemma materialize_absent: "map_of m (key a) = None \<Longrightarrow> materialize a m = m @ [(key a, ''////'')]"
  by (simp add: materialize_def dict_setitem_new)

lemma materialize_append:
  "materialize a m = m @ (if map_of m (key a) = None then [(key a, ''////'')] else [])"
  by (auto simp: materialize_absent materialize_present)

lemma line_at_setitem:
  "line_at (dict_setitem k v m) a = (if key a = k then v else line_at m a)"
  by (simp add: line_at_def map_of_dict_setitem)

lemma store_wf_materialize: "store_wf m \<Longrightarrow> store_wf (materialize a m)"
  by (auto simp: materialize_def store_wf_setitem addr_ok_key line_ok_default split: option.split)

lemma line_ok_line_at: "store_wf m \<Longrightarrow> line_ok (line_at m a)"
  by (auto simp: line_at_def line_ok_default store_wf_lookup split: option.split)

lemma decode_line:
  assumes "line_ok v"
  obtains n where "symbols_to_int v = Inr n" "0 \<le> n" "n < 2 ^ 20" "int_to_symbols n 4 = v"
proof -
  from assms have s: "set v \<subseteq> set symbols" and l: "length v = 4" by (simp_all add: line_ok_def)
  from l have "length v \<le> 10" by simp
  from decode_string [OF s this] obtain m where m: "symbols_to_int v = Inr (int m)" by blast
  from encode_decode [OF s _ _ m, of 4] l
  have "int_to_symbols (int m) 4 = v" "0 \<le> int m" "int m < 2 ^ 20" by simp_all
  with m show ?thesis using that by blast
qed


lemma wrap_Nil: "wrap [] w = []"
  by (simp add: wrap.simps)

lemma wrap_one:
  assumes "0 < length s" "length s \<le> 4"
  shows "wrap s 4 = [s]"
proof -
  have "wrap s 4 = take 4 s # wrap (drop 4 s) 4"
    using assms by (subst wrap.simps) (auto simp: wrap_Nil)
  then show ?thesis using assms by (simp add: wrap_Nil)
qed

lemma wrap_two:
  assumes "4 < length s" "length s \<le> 8"
  shows "wrap s 4 = [take 4 s, drop 4 s]"
proof -
  have 1: "wrap s 4 = take 4 s # wrap (drop 4 s) 4"
    using assms by (subst wrap.simps) auto
  have 2: "wrap (drop 4 s) 4 = take 4 (drop 4 s) # wrap (drop 4 (drop 4 s)) 4"
    using assms by (subst wrap.simps) auto
  have 3: "wrap (drop 4 (drop 4 s)) 4 = []"
    using assms by (simp add: wrap_Nil)
  show ?thesis using assms by (simp add: 1 2 3 wrap_Nil)
qed


lemma enumerate_two: "enumerate 0 [x, y] = [(0, x), (1, y)]"
  by simp


lemma set_line_eq:
  "set_line loc_int iv m = dict_setitem (key (loc_int + int (fst iv))) (ljust (snd iv) 4 (CHR ''/'')) m"
  by (simp add: set_line_def key_def symbols_0)



lemma EStore_set_valid:
  assumes "valid loc 2" "valid val 8"
  shows "\<exists>a. symbols_to_int loc = Inr a \<and>
    EStore_set loc val m = (Inr (), fold (set_line a) (enumerate 0 (wrap val 4)) m)"
proof -
  from assms(1) have "set loc \<subseteq> set symbols" and "length loc \<le> 10" by (simp_all add: valid_iff)
  from decode_string [OF this] obtain k where "symbols_to_int loc = Inr (int k)" by blast
  then show ?thesis using assms by (simp add: EStore_set_def)
qed

lemma EStore_set_invalid:
  "\<not> (valid loc 2 \<and> valid val 8) \<Longrightarrow> EStore_set loc val m = (Inl AssertionError, m)"
  by (auto simp: EStore_set_def)

lemma EStore_set_two:
  assumes "line_ok l1" "line_ok l2"
  shows "EStore_set (key p) (l1 @ l2) m =
    (Inr (), dict_setitem (key (p + 1)) l2 (dict_setitem (key p) l1 m))"
proof -
  have v: "valid (l1 @ l2) 8" using assms by (simp add: valid_iff line_ok_def)
  have w: "wrap (l1 @ l2) 4 = [l1, l2]" using assms by (simp add: wrap_two line_ok_def)
  have lj: "ljust l1 4 (CHR ''/'') = l1" "ljust l2 4 (CHR ''/'') = l2"
    using assms by (simp_all add: ljust_def line_ok_def)
  from EStore_set_valid [OF valid_key v, of p m] decode_key [of p]
  have "EStore_set (key p) (l1 @ l2) m =
      (Inr (), fold (set_line (p mod 1024)) (enumerate 0 (wrap (l1 @ l2) 4)) m)" by simp
  then show ?thesis
    using key_mod_add [of p 0] key_mod_add [of p 1]
    by (simp add: w enumerate_two set_line_eq lj)
qed


lemma upt_two: "[0..<2] = [0, 1]"
  by (simp add: numeral_2_eq_2)

lemma EStore_get_str_one:
  assumes "valid loc 2" "symbols_to_int loc = Inr a"
  shows "EStore_get_str loc 1 m = (Inr (line_at m a), materialize a m)"
  using assms by (simp add: EStore_get_str_def get_line_eq)

lemma EStore_get_num_one:
  assumes "0 \<le> a" "a < 1024"
  shows "EStore_get_num a 1 m =
    (case symbols_to_int (line_at m a) of Inl e \<Rightarrow> (Inl e, materialize a m) | Inr v \<Rightarrow> (Inr v, materialize a m))"
  using assms valid_key [of a] by (simp add: EStore_get_num_def key_small get_line_eq split: sum.split)

lemma EStore_get_num_two:
  assumes "0 \<le> a" "a < 1024"
  shows "EStore_get_num a 2 m =
    (case symbols_to_int (line_at m a @ line_at m (a + 1)) of
       Inl e \<Rightarrow> (Inl e, materialize (a + 1) (materialize a m))
     | Inr v \<Rightarrow> (Inr v, materialize (a + 1) (materialize a m)))"
  using assms valid_key [of a]
  by (simp add: EStore_get_num_def key_small get_line_eq upt_two line_at_materialize Let_def split: sum.split)





subsection \<open>Validation, default fill and the shape of the memory\<close>

text \<open>
  Claim C6. \<open>EStore.set\<close> raises its malformed-field error, the \<open>AssertionError\<close> of its two
  validity assertions, if and only if the address is longer than 2 symbols, the value is
  longer than 8 symbols, or one of them holds a character that is not a symbol. It raises
  no other exception, and whenever it raises, the memory is the memory it was called with.
\<close>

theorem set_malformed_field:
  "(fst (EStore_set loc val m) = Inl AssertionError \<longleftrightarrow>
      2 < length loc \<or> 8 < length val \<or>
      (\<exists>c \<in> set loc. c \<notin> set symbols) \<or> (\<exists>c \<in> set val. c \<notin> set symbols)) \<and>
   (\<forall>e. fst (EStore_set loc val m) = Inl e \<longrightarrow> e = AssertionError \<and> snd (EStore_set loc val m) = m)"
proof (cases "valid loc 2 \<and> valid val 8")
  case True
  then obtain a where "EStore_set loc val m = (Inr (), fold (set_line a) (enumerate 0 (wrap val 4)) m)"
    using EStore_set_valid [of loc val m] by blast
  moreover have "\<not> (2 < length loc \<or> 8 < length val \<or>
      (\<exists>c \<in> set loc. c \<notin> set symbols) \<or> (\<exists>c \<in> set val. c \<notin> set symbols))"
    using True by (auto simp: valid_iff)
  ultimately show ?thesis by simp
next
  case False
  then have "EStore_set loc val m = (Inl AssertionError, m)"
    by (rule EStore_set_invalid)
  moreover have "2 < length loc \<or> 8 < length val \<or>
      (\<exists>c \<in> set loc. c \<notin> set symbols) \<or> (\<exists>c \<in> set val. c \<notin> set symbols)"
    using False by (auto simp: valid_iff)
  ultimately show ?thesis by simp
qed

theorem set_malformed_field_witness:
  "fst (EStore_set ''///'' ''E'' [(''//'', ''E///'')]) = Inl AssertionError \<and>
   snd (EStore_set ''///'' ''E'' [(''//'', ''E///'')]) = [(''//'', ''E///'')]"
  using set_malformed_field [of "''///''" "''E''" "[(''//'', ''E///'')]"] by simp

text \<open>
  Claim C9. A read of one line at an address that is not in the memory returns the line
  of four zero symbols (the integer 0 when the address is given as a number) and adds
  that line to the memory under the address; a second read of the same address returns
  the same line and leaves the memory as the first read left it.
\<close>

theorem get_default_fill:
  assumes "valid loc 2" and "symbols_to_int loc = Inr a" and "map_of m (key a) = None"
  shows "EStore_get_str loc 1 m = (Inr ''////'', m @ [(key a, ''////'')]) \<and>
         EStore_get_str loc 1 (m @ [(key a, ''////'')]) = (Inr ''////'', m @ [(key a, ''////'')]) \<and>
         EStore_get_num a 1 m = (Inr 0, m @ [(key a, ''////'')]) \<and>
         EStore_get_num a 1 (m @ [(key a, ''////'')]) = (Inr 0, m @ [(key a, ''////'')])"
proof -
  let ?m' = "m @ [(key a, ''////'')]"
  have a: "0 \<le> a" "a < 1024"
  proof -
    from assms(1) have "set loc \<subseteq> set symbols" "length loc \<le> 4" "length loc \<le> 2"
      by (simp_all add: valid_iff)
    from encode_decode(2,3) [OF this(1,2) order_refl assms(2)]
    have "0 \<le> a" "a < 32 ^ length loc" by simp_all
    moreover have "(32::int) ^ length loc \<le> 32 ^ 2"
      using \<open>length loc \<le> 2\<close> by (intro power_increasing) simp_all
    ultimately show "0 \<le> a" "a < 1024" by simp_all
  qed
  have 1: "line_at m a = ''////''" "materialize a m = ?m'"
    using assms(3) by (simp_all add: line_at_def materialize_absent)
  have "map_of ?m' (key a) = Some ''////''"
    using assms(3) by (simp add: map_add_Some_iff)
  then have 2: "line_at ?m' a = ''////''" "materialize a ?m' = ?m'"
    by (simp_all add: line_at_def materialize_present)
  have z: "symbols_to_int ''////'' = Inr 0"
    by (rule decode_zero_line)
  show ?thesis
    using 1 2 z by (simp add: EStore_get_str_one [OF assms(1,2)] EStore_get_num_one [OF a])
qed

theorem get_default_fill_witness:
  "EStore_get_str ''E'' 1 [(''//'', ''E//P'')] = (Inr ''////'', [(''//'', ''E//P''), (''E/'', ''////'')]) \<and>
   EStore_get_str ''E'' 1 [(''//'', ''E//P''), (''E/'', ''////'')] = (Inr ''////'', [(''//'', ''E//P''), (''E/'', ''////'')]) \<and>
   EStore_get_num 1 1 [(''//'', ''E//P'')] = (Inr 0, [(''//'', ''E//P''), (''E/'', ''////'')]) \<and>
   EStore_get_num 1 1 [(''//'', ''E//P''), (''E/'', ''////'')] = (Inr 0, [(''//'', ''E//P''), (''E/'', ''////'')])"
proof -
  have h1: "valid ''E'' 2" by code_simp
  have h2: "symbols_to_int ''E'' = Inr 1" by code_simp
  have k: "key 1 = ''E/''" by code_simp
  have h3: "map_of [(''//'', ''E//P'')] (key 1) = None" by code_simp
  show ?thesis
    using get_default_fill [OF h1 h2 h3] by (simp add: k)
qed



text \<open>
  Address wraparound. Writing a valid value of more than 4 symbols at address 1023
  succeeds, puts its first 4 symbols at address 1023 and the rest, padded with the zero
  symbol to a line, at address 0.
\<close>

theorem set_wraps_around:
  assumes "valid val 8" and "4 < length val"
  shows "\<exists>m'. EStore_set [CHR 0xA3, CHR 0xA3] val m = (Inr (), m') \<and>
           map_of m' [CHR 0xA3, CHR 0xA3] = Some (take 4 val) \<and>
           map_of m' ''//'' = Some (ljust (drop 4 val) 4 (CHR ''/''))"
proof -
  have v: "valid [CHR 0xA3, CHR 0xA3] 2" by code_simp
  have d: "symbols_to_int [CHR 0xA3, CHR 0xA3] = Inr 1023" by code_simp
  have k1: "key 1023 = [CHR 0xA3, CHR 0xA3]" and k2: "key 1024 = ''//''" by code_simp+
  have l: "length val \<le> 8" using assms(1) by (simp add: valid_iff)
  from EStore_set_valid [OF v assms(1), of m] d
  have "EStore_set [CHR 0xA3, CHR 0xA3] val m =
      (Inr (), fold (set_line 1023) (enumerate 0 (wrap val 4)) m)" by simp
  moreover have "ljust (take 4 val) 4 (CHR ''/'') = take 4 val"
    using assms(2) by (simp add: ljust_def)
  ultimately show ?thesis
    using assms(2) l
    by (simp add: wrap_two enumerate_two set_line_eq k1 k2 map_of_dict_setitem)
qed

theorem set_wraps_around_witness:
  "\<exists>m'. EStore_set [CHR 0xA3, CHR 0xA3] ''E//PTK'' [] = (Inr (), m') \<and>
           map_of m' [CHR 0xA3, CHR 0xA3] = Some ''E//P'' \<and>
           map_of m' ''//'' = Some ''TK//''"
proof -
  have v: "valid ''E//PTK'' 8" by code_simp
  have l: "4 < length ''E//PTK''" by simp
  from set_wraps_around [OF v l, of "[]"] show ?thesis by (simp add: ljust_def numeral_2_eq_2)
qed

section \<open>The engine\<close>

lemma take2_instr: "take 2 (int_to_symbols s 4) = key (s mod 1024)"
proof -
  let ?instr = "int_to_symbols s 4"
  let ?lp = "take 2 ?instr" and ?fs = "drop 2 ?instr"
  have sub: "set ?instr \<subseteq> set symbols" by (rule set_int_to_symbols)
  have slp: "set ?lp \<subseteq> set symbols" using sub by (auto dest: in_set_takeD)
  have sfs: "set ?fs \<subseteq> set symbols" using sub by (auto dest: in_set_dropD)
  have llp: "length ?lp = 2" by (simp add: length_instr)
  have lfs: "length ?fs = 2" by (simp add: length_instr)
  from llp have "length ?lp \<le> 10" by simp
  from decode_string [OF slp this] obtain a where a: "symbols_to_int ?lp = Inr (int a)" and alt: "a < 32 ^ length ?lp"
    by blast
  from a have a': "symbols_to_int_loop 0 (Finite 0) ?lp = Inr (Finite (int a))"
    by (simp only: decode_Inr_iff)
  have "\<exists>m. symbols_to_int_loop 10 (Finite (int a)) ?fs = Inr (Finite (int a + int m * 2 ^ 10)) \<and>
      m < 32 ^ length ?fs \<and>
      int_to_symbols_loop m @ replicate (length ?fs - length (int_to_symbols_loop m)) (CHR ''/'') = ?fs"
    using sfs
  proof (rule decode_valid)
    show "0 \<le> int a" by simp
    show "int a < 2 ^ 10" using alt llp by simp
    show "10 + 5 * length ?fs \<le> 53" using lfs by simp
  qed
  then obtain m where
    m: "symbols_to_int_loop 10 (Finite (int a)) ?fs = Inr (Finite (int a + int m * 2 ^ 10))" by blast
  have "symbols_to_int_loop 0 (Finite 0) (?lp @ ?fs) =
      (case symbols_to_int_loop 0 (Finite 0) ?lp of
         Inl e \<Rightarrow> Inl e
       | Inr out' \<Rightarrow> symbols_to_int_loop (0 + 5 * length ?lp) out' ?fs)"
    by (rule decode_append)
  then have "symbols_to_int ?instr = Inr (int a + int m * 2 ^ 10)"
    using a' m llp by (simp add: symbols_to_int_def)
  then have "s mod 2 ^ 20 = int a + int m * 2 ^ 10"
    using decode_int_to_symbols [of 4 s] by simp
  then have "s mod 2 ^ 20 mod 1024 = (int a + int m * 1024) mod 1024" by simp
  also have "\<dots> = int a mod 1024" by (simp only: mod_mult_self1)
  also have "\<dots> = int a" using alt llp by simp
  finally have "s mod 1024 = int a" by (simp add: mod_mod_cancel)
  moreover have "int_to_symbols (int a) 2 = ?lp"
    using encode_decode(1) [OF slp _ _ a, of 2] llp by simp
  ultimately show ?thesis by (simp add: key_def)
qed

lemma applyInstruction_execute:
  assumes "store_wf (e_store st)"
  obtains s_data s_pair_data where
    "symbols_to_int (line_at (e_store st) (S st mod 1024)) = Inr s_data"
    "symbols_to_int (line_at (e_store st) (S st mod 1024) @ line_at (e_store st) (S st mod 1024 + 1)) = Inr s_pair_data"
    "applyInstruction st =
       execute (int_to_symbols (S st) 4) (take 2 (int_to_symbols (S st) 4))
         (drop 2 (int_to_symbols (S st) 4)) (int_to_symbols (A st) 8) s_data s_pair_data
         (st\<lparr>e_store := materialize (S st mod 1024 + 1) (materialize (S st mod 1024) (e_store st))\<rparr>)"
proof -
  let ?p = "S st mod 1024"
  let ?m = "e_store st"
  have p: "0 \<le> ?p" "?p < 1024" by simp_all
  have "line_ok (line_at ?m ?p)" "line_ok (line_at ?m (?p + 1))"
    using assms by (simp_all add: line_ok_line_at)
  then have s1: "set (line_at ?m ?p) \<subseteq> set symbols"
    and s2: "set (line_at ?m ?p @ line_at ?m (?p + 1)) \<subseteq> set symbols"
    and l1: "length (line_at ?m ?p) \<le> 10"
    and l2: "length (line_at ?m ?p @ line_at ?m (?p + 1)) \<le> 10"
    by (simp_all add: line_ok_def)
  from decode_string [OF s1 l1] obtain d1 where d1: "symbols_to_int (line_at ?m ?p) = Inr (int d1)" by blast
  from decode_string [OF s2 l2] obtain d2 where
    d2: "symbols_to_int (line_at ?m ?p @ line_at ?m (?p + 1)) = Inr (int d2)" by blast
  have g1: "EStore_get_num ?p 1 ?m = (Inr (int d1), materialize ?p ?m)"
    using d1 by (simp add: EStore_get_num_one [OF p])
  have g2: "EStore_get_num ?p 2 (materialize ?p ?m) = (Inr (int d2), materialize (?p + 1) (materialize ?p ?m))"
    using d2 by (simp add: EStore_get_num_two [OF p] line_at_materialize materialize_idem)
  have "applyInstruction st =
       execute (int_to_symbols (S st) 4) (take 2 (int_to_symbols (S st) 4))
         (drop 2 (int_to_symbols (S st) 4)) (int_to_symbols (A st) 8) (int d1) (int d2)
         (st\<lparr>e_store := materialize (?p + 1) (materialize ?p ?m)\<rparr>)"
    using g1 g2 by (simp add: applyInstruction_def Let_def)
  with d1 d2 show ?thesis using that by blast
qed

lemma fetch_wf:
  assumes "store_wf (e_store st)"
  obtains v where
    "symbols_to_int (line_at (e_store st) ((C st + 1) mod 1024)) = Inr v"
    "0 \<le> v" "v < 2 ^ 20"
    "int_to_symbols v 4 = line_at (e_store st) ((C st + 1) mod 1024)"
    "I st = (Inr (), st\<lparr>C := (C st + 1) mod 1024,
                         e_store := materialize ((C st + 1) mod 1024) (e_store st), S := v\<rparr>)"
proof -
  let ?c = "(C st + 1) mod 1024"
  have c: "0 \<le> ?c" "?c < 1024" by simp_all
  have "line_ok (line_at (e_store st) ?c)" using assms by (rule line_ok_line_at)
  from decode_line [OF this] obtain v where v: "symbols_to_int (line_at (e_store st) ?c) = Inr v"
    "0 \<le> v" "v < 2 ^ 20" "int_to_symbols v 4 = line_at (e_store st) ?c" by blast
  have "EStore_get_num ?c 1 (e_store st) = (Inr v, materialize ?c (e_store st))"
    using v(1) by (simp add: EStore_get_num_one [OF c])
  then have "I st = (Inr (), st\<lparr>C := ?c, e_store := materialize ?c (e_store st), S := v\<rparr>)"
    by (simp add: I_def)
  with v show ?thesis using that by blast
qed

lemma execute_branches:
  assumes "execute instr line_pair func_sym acc_symbols s_data s_pair_data st = (Inr (), st')"
    and "C st' \<noteq> C st"
  shows "(func_sym = ''/H'' \<or> func_sym = ''/P'') \<and> C st' = s_data mod 1024"
  using assms
  by (auto simp: execute_def Let_def split: if_splits prod.splits sum.splits)

lemma decode_branch:
  assumes "0 \<le> p" "p < 1024"
  shows "symbols_to_int (key p @ ''/P'') = Inr (p + 720896)"
proof -
  have "symbols_to_int_loop 0 (Finite 0) (key p) = Inr (Finite p)"
    using decode_key [of p] assms by (simp add: decode_Inr_iff)
  then show ?thesis
    using assms by (simp add: symbols_to_int_def decode_append length_key index_symbols_zero index_P fl_exact)
qed

lemma encode_branch:
  assumes "0 \<le> p" "p < 1024"
  shows "int_to_symbols (p + 720896) 4 = key p @ ''/P''"
proof -
  have "set (key p @ ''/P'') \<subseteq> set symbols"
    using addr_ok_key [of p] by (simp add: addr_ok_def symbols_def)
  from encode_decode(1) [OF this _ _ decode_branch [OF assms], of 4]
  show ?thesis by (simp add: length_key)
qed

lemma run_loop_halting_rule:
  assumes "n < steps \<or> steps = 0" and "next_cycle st = (Inr (), st')" and "C st = C st'"
  shows "run_loop steps n st = Some (HaltingLoopDetected, n, st')"
  using assms by (subst run_loop.simps) auto

lemma run_loop_continue_rule:
  assumes "n < steps \<or> steps = 0" and "next_cycle st = (Inr (), st')" and "C st \<noteq> C st'"
  shows "run_loop steps n st = run_loop steps (n + 1) st'"
  using assms by (subst run_loop.simps) auto

lemma run_loop_raise_rule:
  assumes "n < steps \<or> steps = 0" and "next_cycle st = (Inl e, st')"
  shows "run_loop steps n st = Some (Raised e, n, st')"
  using assms by (subst run_loop.simps) auto

lemma run_loop_counter:
  assumes "run_loop steps n st = Some y"
  shows "n \<le> fst (snd y)"
proof (rule run_loop.raw_induct [where P = "\<lambda>steps n st y. n \<le> fst (snd y)", OF _ assms])
  fix rl :: "int \<Rightarrow> int \<Rightarrow> State \<Rightarrow> (outcome \<times> int \<times> State) option"
  fix steps n :: int and st :: State and y :: "outcome \<times> int \<times> State"
  assume ih: "\<And>steps n st y. rl steps n st = Some y \<Longrightarrow> n \<le> fst (snd y)"
  assume body: "(if n < steps \<or> steps = 0
      then case next_cycle st of
             (Inl e, st') \<Rightarrow> Some (Raised e, n, st')
           | (Inr u, st') \<Rightarrow>
               if C st = C st' then Some (HaltingLoopDetected, n, st')
               else rl steps (n + 1) st'
      else Some (StepsDone, n, st)) = Some y"
  show "n \<le> fst (snd y)"
  proof (cases "n < steps \<or> steps = 0")
    case False
    then show ?thesis using body by auto
  next
    case True
    obtain r st1 where nc: "next_cycle st = (r, st1)" by (cases "next_cycle st")
    show ?thesis
    proof (cases r)
      case (Inl e)
      then show ?thesis using body True nc by auto
    next
      case (Inr u)
      show ?thesis
      proof (cases "C st = C st1")
        case True
        then show ?thesis using body \<open>n < steps \<or> steps = 0\<close> nc Inr by auto
      next
        case False
        then have "rl steps (n + 1) st1 = Some y"
          using body True nc Inr by auto
        then have "n + 1 \<le> fst (snd y)" by (rule ih)
        then show ?thesis by simp
      qed
    qed
  qed
qed

lemma run_loop_halt_now:
  assumes "run_loop steps n st = Some (HaltingLoopDetected, n, st')"
  shows "next_cycle st = (Inr (), st') \<and> C st = C st'"
proof -
  have t: "n < steps \<or> steps = 0"
    using assms by (subst (asm) run_loop.simps) (auto split: if_splits)
  obtain r st1 where nc: "next_cycle st = (r, st1)" by (cases "next_cycle st")
  show ?thesis
  proof (cases r)
    case (Inl e)
    then show ?thesis using assms t nc by (subst (asm) run_loop.simps) auto
  next
    case (Inr u)
    show ?thesis
    proof (cases "C st = C st1")
      case True
      then show ?thesis using assms t nc Inr by (subst (asm) run_loop.simps) auto
    next
      case False
      then have "run_loop steps (n + 1) st1 = Some (HaltingLoopDetected, n, st')"
        using assms t nc Inr by (subst (asm) run_loop.simps) auto
      from run_loop_counter [OF this] show ?thesis by simp
    qed
  qed
qed

subsection \<open>Halting-loop detection\<close>

text \<open>
  Claim C1, as the code has it. The run starts with accumulator 0 and program counter
  1023, so the first cycle fetches address 0. If the line there is an unconditional
  branch \<open>/P\<close> with operand address \<open>p\<close>, and the line stored at \<open>p\<close> decodes to a value
  that is 1023 modulo 1024, then the cycle ends with the program counter back at its
  value before the fetch, and the run (unbounded, or bounded by at least one step) ends
  by halting-loop detection in that first cycle, with the counter \<open>n\<close> still 0 and the
  accumulator still 0. The branch is indirect (the new program counter is the content of
  the operand line, not the operand) and the fetch increments the program counter before
  it reads, so a branch whose operand is its own address does not halt the run.
\<close>

theorem halting_loop_first_cycle:
  assumes "store_wf mem" and "0 \<le> p" and "p < 1024"
    and "map_of mem ''//'' = Some (int_to_symbols p 2 @ ''/P'')"
    and "map_of mem (int_to_symbols p 2) = Some tgt"
    and "symbols_to_int tgt = Inr t" and "t mod 1024 = 1023"
    and "steps = 0 \<or> 1 \<le> steps"
  shows "\<exists>st'. next_cycle (State_init 0 mem) = (Inr (), st') \<and>
           C st' = C (State_init 0 mem) \<and> C st' = 1023 \<and> A st' = 0 \<and>
           run steps (State_init 0 mem) = Some (HaltingLoopDetected, 0, st')"
proof -
  let ?st0 = "State_init 0 mem"
  let ?S = "p + 720896"
  let ?st1 = "\<lparr>A = 0, e_store = mem, C = 0, S = ?S\<rparr>"
  have kp: "int_to_symbols p 2 = key p" using assms(2,3) by (rule key_small)
  have k0: "key 0 = ''//''" by code_simp
  have "line_at mem 0 = key p @ ''/P''" "materialize 0 mem = mem"
    using assms(4) by (simp_all add: line_at_def materialize_def k0 kp)
  then have "EStore_get_num 0 1 mem = (Inr ?S, mem)"
    using decode_branch [OF assms(2,3)] by (simp add: EStore_get_num_one)
  then have fetch: "I ?st0 = (Inr (), ?st1)"
    by (simp add: I_def State_init_def)
  have "(p + 720896) mod 1024 = (p + 1024 * 704) mod 1024" by simp
  also have "\<dots> = p mod 1024" by (simp only: mod_mult_self2)
  finally have Smod: "?S mod 1024 = p" using assms(2,3) by simp
  have wf1: "store_wf (e_store ?st1)" using assms(1) by simp
  from applyInstruction_execute [OF wf1] obtain s_data s_pair_data where
    sd: "symbols_to_int (line_at (e_store ?st1) (S ?st1 mod 1024)) = Inr s_data" and
    ap: "applyInstruction ?st1 =
       execute (int_to_symbols (S ?st1) 4) (take 2 (int_to_symbols (S ?st1) 4))
         (drop 2 (int_to_symbols (S ?st1) 4)) (int_to_symbols (A ?st1) 8) s_data s_pair_data
         (?st1\<lparr>e_store := materialize (S ?st1 mod 1024 + 1) (materialize (S ?st1 mod 1024) (e_store ?st1))\<rparr>)"
    by blast
  have "line_at mem p = tgt" using assms(5) by (simp add: line_at_def kp)
  then have "s_data = t" using sd assms(6) Smod by simp
  moreover have "drop 2 (int_to_symbols ?S 4) = ''/P''"
    by (simp add: encode_branch [OF assms(2,3)] length_key)
  ultimately have "applyInstruction ?st1 =
      (Inr (), ?st1\<lparr>e_store := materialize (p + 1) (materialize p mem), C := 1023\<rparr>)"
    using ap assms(7) Smod by (simp add: execute_def)
  then have nc: "next_cycle ?st0 =
      (Inr (), ?st1\<lparr>e_store := materialize (p + 1) (materialize p mem), C := 1023\<rparr>)"
    using fetch by (simp add: next_cycle_def)
  let ?st' = "?st1\<lparr>e_store := materialize (p + 1) (materialize p mem), C := 1023\<rparr>"
  have c: "C ?st0 = C ?st'" by (simp add: State_init_def)
  have "0 < steps \<or> steps = 0" using assms(8) by auto
  from run_loop_halting_rule [OF this nc c]
  have "run steps ?st0 = Some (HaltingLoopDetected, 0, ?st')" by (simp add: run_def)
  with nc c show ?thesis by simp
qed

theorem halting_loop_first_cycle_witness:
  "\<exists>st'. next_cycle (State_init 0 [(''//'', ''E//P''), (''E/'', [CHR 0xA3, CHR 0xA3, CHR ''/'', CHR ''/''])]) = (Inr (), st') \<and>
      C st' = 1023 \<and> A st' = 0 \<and>
      run 0 (State_init 0 [(''//'', ''E//P''), (''E/'', [CHR 0xA3, CHR 0xA3, CHR ''/'', CHR ''/''])]) =
        Some (HaltingLoopDetected, 0, st')"
proof -
  let ?mem = "[(''//'', ''E//P''), (''E/'', [CHR 0xA3, CHR 0xA3, CHR ''/'', CHR ''/''])]"
  have h1: "store_wf ?mem" by code_simp
  have h4: "map_of ?mem ''//'' = Some (int_to_symbols 1 2 @ ''/P'')" by code_simp
  have h5: "map_of ?mem (int_to_symbols 1 2) = Some [CHR 0xA3, CHR 0xA3, CHR ''/'', CHR ''/'']" by code_simp
  have h6: "symbols_to_int [CHR 0xA3, CHR 0xA3, CHR ''/'', CHR ''/''] = Inr 1023" by code_simp
  have h7: "(1023::int) mod 1024 = 1023" by simp
  have h8: "(0::int) = 0 \<or> 1 \<le> (0::int)" by simp
  from halting_loop_first_cycle [OF h1 _ _ h4 h5 h6 h7 h8]
  show ?thesis by auto
qed

theorem halting_loop_first_cycle_counterexample:
  "run 0 (State_init 0 (snd (load [(''//'', ''///P'')] []))) =
    Some (Raised (InvalidInstructionError ''Instruction //// does not exist!''), 1,
          \<lparr>A = 0, e_store = [(''//'', ''///P''), (''E/'', ''////'')], C = 1, S = 0\<rparr>)"
  by code_simp

text \<open>
  Only a second line can halt the first cycle. If a run from the initial state ends by
  halting-loop detection in its first cycle, then the line at address 0 is a branch
  (\<open>/H\<close> or \<open>/P\<close>) whose operand \<open>p\<close> is not 0, and the memory holds, besides the
  line at address 0, a line at address \<open>p\<close> that decodes to 1023 modulo 1024. So no
  program of one line, and no branch whose operand is its own address, ends the run
  this way.
\<close>

theorem first_cycle_halt_needs_second_line:
  assumes "store_wf mem" and "run steps (State_init 0 mem) = Some (HaltingLoopDetected, 0, st')"
  shows "\<exists>p t. 0 < p \<and> p < 1024 \<and> take 2 (line_at mem 0) = key p \<and>
           (drop 2 (line_at mem 0) = ''/H'' \<or> drop 2 (line_at mem 0) = ''/P'') \<and>
           symbols_to_int (line_at mem p) = Inr t \<and> t mod 1024 = 1023 \<and>
           key p \<noteq> key 0 \<and> map_of mem (key 0) \<noteq> None \<and> map_of mem (key p) \<noteq> None"
proof -
  let ?st0 = "State_init 0 mem"
  from run_loop_halt_now [of steps 0 ?st0 st'] assms(2)
  have nc: "next_cycle ?st0 = (Inr (), st')" and c: "C st' = 1023"
    by (simp_all add: run_def State_init_def)
  have wf0: "store_wf (e_store ?st0)" using assms(1) by (simp add: State_init_def)
  from fetch_wf [OF wf0] obtain v where
    v: "symbols_to_int (line_at mem 0) = Inr v" "int_to_symbols v 4 = line_at mem 0" and
    f: "I ?st0 = (Inr (), ?st0\<lparr>C := 0, e_store := materialize 0 mem, S := v\<rparr>)"
    by (auto simp: State_init_def)
  let ?st1 = "?st0\<lparr>C := 0, e_store := materialize 0 mem, S := v\<rparr>"
  let ?p = "v mod 1024"
  have ap: "applyInstruction ?st1 = (Inr (), st')"
    using nc f by (simp add: next_cycle_def)
  have wf1: "store_wf (e_store ?st1)" using assms(1) by (simp add: store_wf_materialize)
  from applyInstruction_execute [OF wf1] obtain s_data s_pair_data where
    sd: "symbols_to_int (line_at (e_store ?st1) (S ?st1 mod 1024)) = Inr s_data" and
    ex: "applyInstruction ?st1 =
       execute (int_to_symbols (S ?st1) 4) (take 2 (int_to_symbols (S ?st1) 4))
         (drop 2 (int_to_symbols (S ?st1) 4)) (int_to_symbols (A ?st1) 8) s_data s_pair_data
         (?st1\<lparr>e_store := materialize (S ?st1 mod 1024 + 1) (materialize (S ?st1 mod 1024) (e_store ?st1))\<rparr>)"
    by blast
  have sd': "symbols_to_int (line_at mem ?p) = Inr s_data"
    using sd by (simp add: line_at_materialize)
  from execute_branches [OF ex [unfolded ap, symmetric]] c
  have fs: "drop 2 (int_to_symbols v 4) = ''/H'' \<or> drop 2 (int_to_symbols v 4) = ''/P''"
    and t: "s_data mod 1024 = 1023"
    by simp_all
  have p0: "?p \<noteq> 0"
  proof
    assume "?p = 0"
    then have "s_data = v" using sd' v(1) by simp
    then show False using t \<open>?p = 0\<close> by simp
  qed
  moreover have "0 \<le> ?p" by simp
  ultimately have p: "0 < ?p" "?p < 1024"
    by simp_all
  have tk: "take 2 (line_at mem 0) = key ?p"
    using take2_instr [of v] v(2) by (simp add: key_mod)
  have z: "symbols_to_int ''////'' = Inr 0"
    by (rule decode_zero_line)
  have nd: "line_at mem ?p \<noteq> ''////''"
    using sd' t z by auto
  have kk: "key ?p \<noteq> key 0"
  proof
    assume "key ?p = key 0"
    from key_inj [OF this] show False using p0 by simp
  qed
  have m1: "map_of mem (key ?p) \<noteq> None"
    using nd by (auto simp: line_at_def split: option.splits)
  have "line_at mem 0 \<noteq> ''////''"
    using fs v(2) by auto
  then have m0: "map_of mem (key 0) \<noteq> None"
    by (auto simp: line_at_def split: option.splits)
  from p tk fs sd' t kk v(2) m0 m1 show ?thesis by auto
qed

theorem first_cycle_halt_needs_second_line_witness:
  "\<exists>p t. 0 < p \<and> p < 1024 \<and>
     take 2 (line_at [(''//'', ''E//P''), (''E/'', [CHR 0xA3, CHR 0xA3, CHR ''/'', CHR ''/''])] 0) = key p \<and>
     symbols_to_int (line_at [(''//'', ''E//P''), (''E/'', [CHR 0xA3, CHR 0xA3, CHR ''/'', CHR ''/''])] p) = Inr t \<and>
     t mod 1024 = 1023 \<and> key p \<noteq> key 0"
proof -
  let ?mem = "[(''//'', ''E//P''), (''E/'', [CHR 0xA3, CHR 0xA3, CHR ''/'', CHR ''/''])]"
  have h1: "store_wf ?mem" by code_simp
  have h2: "run 0 (State_init 0 ?mem) = Some (HaltingLoopDetected, 0,
      \<lparr>A = 0, e_store = [(''//'', ''E//P''), (''E/'', [CHR 0xA3, CHR 0xA3, CHR ''/'', CHR ''/'']), (''@/'', ''////'')],
       C = 1023, S = 720897\<rparr>)"
    by code_simp
  from first_cycle_halt_needs_second_line [OF h1 h2] show ?thesis by blast
qed

subsection \<open>Accumulator arithmetic\<close>

text \<open>
  Claim C2. The add and subtract instructions do not reduce their result: the code
  computes \<open>A + (s_pair_data % 2^40)\<close> and \<open>A - (s_pair_data % 2^40)\<close>. Loading
  \<open>2^40 - 1\<close> and adding 1 leaves the accumulator at \<open>2^40\<close>, and subtracting 1 from
  the initial accumulator 0 leaves it at \<open>-1\<close>; both are outside \<open>[0, 2^40)\<close>.
\<close>

theorem add_subtract_unreduced:
  "run 2 (State_init 0 (snd (load [(''//'', ''R/T/''), (''E/'', ''N/TI''),
         (''R/'', replicate 8 (CHR 0xA3)), (''N/'', ''E'')] []))) =
   Some (StepsDone, 2, \<lparr>A = 2 ^ 40,
      e_store = [(''//'', ''R/T/''), (''E/'', ''N/TI''),
         (''R/'', replicate 4 (CHR 0xA3)), (''J/'', replicate 4 (CHR 0xA3)),
         (''N/'', ''E///''), (''F/'', ''////'')], C = 1, S = 213004\<rparr>)
  \<and> run 1 (State_init 0 (snd (load [(''//'', ''R/TN''),  (''R/'', ''E'')] []))) =
   Some (StepsDone, 1, \<lparr>A = - 1, e_store = [(''//'', ''R/TN''), (''R/'', ''E///''), (''J/'', ''////'')],
      C = 0, S = 409610\<rparr>)"
  by code_simp

text \<open>
  Arithmetic modulus. Loading \<open>2^40 - 1\<close> and then doubling the same operand leaves the
  accumulator at \<open>2^40 - 2\<close>: the double instruction reduces modulo \<open>2^40\<close>.
\<close>

theorem load_then_double:
  "run 2 (State_init 0 (snd (load [(''//'', ''R/T/''), (''E/'', ''R/TK''),
         (''R/'', replicate 8 (CHR 0xA3))] []))) =
   Some (StepsDone, 2, \<lparr>A = 2 ^ 40 - 2,
      e_store = [(''//'', ''R/T/''), (''E/'', ''R/TK''),
         (''R/'', replicate 4 (CHR 0xA3)), (''J/'', replicate 4 (CHR 0xA3))], C = 1, S = 507914\<rparr>)"
  by code_simp

text \<open>
  Add and subtract composed. From accumulator 0, adding the operand 5 and then
  subtracting the operand 5 leaves the accumulator at 0.
\<close>

theorem add_then_subtract:
  "run 2 (State_init 0 (snd (load [(''//'', ''R/TI''), (''E/'', ''R/TN''), (''R/'', ''S'')] []))) =
   Some (StepsDone, 2, \<lparr>A = 0,
      e_store = [(''//'', ''R/TI''), (''E/'', ''R/TN''), (''R/'', ''S///''), (''J/'', ''////'')],
      C = 1, S = 409610\<rparr>)"
  by code_simp

subsection \<open>Store and load\<close>

text \<open>
  Claim C3. The program loads \<open>2^20\<close> from the two lines at address 10, stores the
  accumulator at address 12 and loads the two lines at address 12 back. After the store
  (2 cycles) the accumulator is \<open>2^20\<close> and the lines at 12 and 13 are both all-zero;
  after the load (3 cycles) the accumulator is 0, not \<open>2^20\<close>: \<open>int_to_symbols\<close> reduces
  the accumulator modulo \<open>2^20\<close> before it encodes it to 8 symbols, so the store
  instruction writes the low 20 bits and an all-zero second line.
\<close>

theorem store_then_load_loses_high_bits:
  "run 2 (State_init 0 (snd (load
       [(''//'', ''R/T/''), (''E/'', ''N//S''), (''@/'', ''N/T/''), (''R/'', ''////E///'')] []))) =
   Some (StepsDone, 2, \<lparr>A = 2 ^ 20,
      e_store = [(''//'', ''R/T/''), (''E/'', ''N//S''), (''@/'', ''N/T/''), (''R/'', ''////''),
         (''J/'', ''E///''), (''N/'', ''////''), (''F/'', ''////'')], C = 1, S = 0\<rparr>) \<and>
   run 3 (State_init 0 (snd (load
       [(''//'', ''R/T/''), (''E/'', ''N//S''), (''@/'', ''N/T/''), (''R/'', ''////E///'')] []))) =
   Some (StepsDone, 3, \<lparr>A = 0,
      e_store = [(''//'', ''R/T/''), (''E/'', ''N//S''), (''@/'', ''N/T/''), (''R/'', ''////''),
         (''J/'', ''E///''), (''N/'', ''////''), (''F/'', ''////'')], C = 2, S = 16396\<rparr>)"
  by code_simp

text \<open>
  What store and load do. On a well-formed store, the store instruction \<open>/S\<close> raises
  nothing, sets the current-instruction register to \<open>A mod 2^20\<close> and leaves at its
  operand address the 4 symbols of \<open>A mod 2^20\<close> and at the next address the all-zero
  line. A load instruction \<open>T/\<close> with the same operand address, executed on the memory
  the store left, puts \<open>A mod 2^20\<close> in the accumulator.
\<close>

theorem store_and_load_effect:
  assumes "store_wf (e_store st)" and "State_exact st"
    and "drop 2 (int_to_symbols (S st) 4) = ''/S''"
    and "e_store st2 = e_store (snd (applyInstruction st))" and "State_exact st2"
    and "S st2 mod 1024 = S st mod 1024"
    and "drop 2 (int_to_symbols (S st2) 4) = ''T/''"
  shows "fst (applyInstruction st) = Inr () \<and>
         S (snd (applyInstruction st)) = A st mod 2 ^ 20 \<and>
         line_at (e_store (snd (applyInstruction st))) (S st mod 1024) = int_to_symbols (A st) 4 \<and>
         line_at (e_store (snd (applyInstruction st))) (S st mod 1024 + 1) = ''////'' \<and>
         fst (applyInstruction st2) = Inr () \<and>
         A (snd (applyInstruction st2)) = A st mod 2 ^ 20"
proof -
  let ?p = "S st mod 1024"
  let ?m1 = "materialize (?p + 1) (materialize ?p (e_store st))"
  let ?l = "int_to_symbols (A st) 4"
  let ?m2 = "dict_setitem (key (?p + 1)) ''////'' (dict_setitem (key ?p) ?l ?m1)"
  from applyInstruction_execute [OF assms(1)] obtain s_data s_pair_data where
    "applyInstruction st =
       execute (int_to_symbols (S st) 4) (take 2 (int_to_symbols (S st) 4))
         (drop 2 (int_to_symbols (S st) 4)) (int_to_symbols (A st) 8) s_data s_pair_data
         (st\<lparr>e_store := ?m1\<rparr>)"
    by blast
  moreover have "EStore_set (key ?p) (?l @ ''////'') ?m1 = (Inr (), ?m2)"
    by (rule EStore_set_two [OF line_ok_instr line_ok_default])
  ultimately have ap: "applyInstruction st = (Inr (), st\<lparr>S := A st mod 2 ^ 20, e_store := ?m2\<rparr>)"
    using assms(3) by (simp add: execute_def take2_instr acc_symbols_split mod_mod_cancel)
  have la: "line_at ?m2 ?p = ?l" "line_at ?m2 (?p + 1) = ''////''"
    using key_succ_neq [of ?p] by (auto simp: line_at_setitem)
  have wf2: "store_wf ?m2"
    using assms(1)
    by (intro store_wf_setitem store_wf_materialize addr_ok_key line_ok_instr line_ok_default)
  have e2: "e_store st2 = ?m2" using assms(4) ap by simp
  then have wfst2: "store_wf (e_store st2)" using wf2 by simp
  from applyInstruction_execute [OF wfst2] obtain t_data t_pair_data where
    tp: "symbols_to_int (line_at (e_store st2) (S st2 mod 1024) @ line_at (e_store st2) (S st2 mod 1024 + 1))
          = Inr t_pair_data" and
    ap2: "applyInstruction st2 =
       execute (int_to_symbols (S st2) 4) (take 2 (int_to_symbols (S st2) 4))
         (drop 2 (int_to_symbols (S st2) 4)) (int_to_symbols (A st2) 8) t_data t_pair_data
         (st2\<lparr>e_store := materialize (S st2 mod 1024 + 1) (materialize (S st2 mod 1024) (e_store st2))\<rparr>)"
    by blast
  have "symbols_to_int (?l @ ''////'') = Inr (A st mod 2 ^ 20)"
    using decode_int_to_symbols [of 8 "A st"] by (simp add: acc_symbols_split)
  then have "t_pair_data = A st mod 2 ^ 20"
    using tp la e2 assms(6) by simp
  moreover have "A st mod 2 ^ 20 mod 2 ^ 40 = A st mod 2 ^ 20"
  proof -
    have "0 \<le> A st mod 2 ^ 20" by simp
    moreover have "A st mod 2 ^ 20 < 2 ^ 20" by simp
    then have "A st mod 2 ^ 20 < 2 ^ 40" by simp
    ultimately show ?thesis by (rule mod_pos_pos_trivial)
  qed
  ultimately have "applyInstruction st2 = (Inr (), st2\<lparr>
      e_store := materialize (S st2 mod 1024 + 1) (materialize (S st2 mod 1024) (e_store st2)),
      A := A st mod 2 ^ 20\<rparr>)"
    using ap2 assms(7) by (simp add: execute_def)
  then show ?thesis using ap la by simp
qed

theorem store_and_load_effect_witness:
  "fst (applyInstruction \<lparr>A = 1048581, e_store = [(''//'', ''R//S''), (''E/'', ''R/T/'')], C = 0, S = 163850\<rparr>) = Inr () \<and>
   S (snd (applyInstruction \<lparr>A = 1048581, e_store = [(''//'', ''R//S''), (''E/'', ''R/T/'')], C = 0, S = 163850\<rparr>)) = 5 \<and>
   fst (applyInstruction \<lparr>A = 1048581,
      e_store = [(''//'', ''R//S''), (''E/'', ''R/T/''), (''R/'', ''S///''), (''J/'', ''////'')], C = 1, S = 16394\<rparr>) = Inr () \<and>
   A (snd (applyInstruction \<lparr>A = 1048581,
      e_store = [(''//'', ''R//S''), (''E/'', ''R/T/''), (''R/'', ''S///''), (''J/'', ''////'')], C = 1, S = 16394\<rparr>)) = 5"
proof -
  let ?st = "\<lparr>A = 1048581, e_store = [(''//'', ''R//S''), (''E/'', ''R/T/'')], C = 0, S = 163850\<rparr>"
  let ?st2 = "\<lparr>A = 1048581,
      e_store = [(''//'', ''R//S''), (''E/'', ''R/T/''), (''R/'', ''S///''), (''J/'', ''////'')], C = 1, S = 16394\<rparr>"
  have h1: "store_wf (e_store ?st)" by code_simp
  have h2: "State_exact ?st" by code_simp
  have h3: "drop 2 (int_to_symbols (S ?st) 4) = ''/S''" by code_simp
  have h4: "e_store ?st2 = e_store (snd (applyInstruction ?st))" by code_simp
  have h5: "State_exact ?st2" by code_simp
  have h6: "S ?st2 mod 1024 = S ?st mod 1024" by simp
  have h7: "drop 2 (int_to_symbols (S ?st2) 4) = ''T/''" by code_simp
  from store_and_load_effect [OF h1 h2 h3 h4 h5 h6 h7] show ?thesis by simp
qed

subsection \<open>Negate, unrecognised codes and the no-op\<close>

text \<open>
  Claim C7, as the code has it. On a well-formed store and with registers in the exact
  range, the negate instruction \<open>TF\<close> raises \<open>InvalidInstructionError\<close>, the same
  exception class that an unrecognised function code raises; the program has no separate
  class for an unimplemented operation. The two differ in the message only:
  \<open>TF currently unimplemented\<close> for negate, \<open>Instruction <the 4 symbols> does not exist!\<close>
  for an unrecognised code, and these two texts are never equal.
\<close>

theorem negate_raises_invalid_instruction:
  assumes "store_wf (e_store st)" and "State_exact st"
  shows "(drop 2 (int_to_symbols (S st) 4) = ''TF'' \<longrightarrow>
            fst (applyInstruction st) = Inl (InvalidInstructionError ''TF currently unimplemented'')) \<and>
         (drop 2 (int_to_symbols (S st) 4) \<notin> set function_codes \<longrightarrow>
            fst (applyInstruction st) =
              Inl (InvalidInstructionError (''Instruction '' @ int_to_symbols (S st) 4 @ '' does not exist!''))) \<and>
         ''TF currently unimplemented'' \<noteq> ''Instruction '' @ instr @ '' does not exist!''"
proof -
  from applyInstruction_execute [OF assms(1)] obtain s_data s_pair_data where
    "applyInstruction st =
       execute (int_to_symbols (S st) 4) (take 2 (int_to_symbols (S st) 4))
         (drop 2 (int_to_symbols (S st) 4)) (int_to_symbols (A st) 8) s_data s_pair_data
         (st\<lparr>e_store := materialize (S st mod 1024 + 1) (materialize (S st mod 1024) (e_store st))\<rparr>)"
    by blast
  then show ?thesis
    by (simp add: execute_def function_codes_def)
qed

theorem negate_raises_invalid_instruction_witness:
  "fst (applyInstruction \<lparr>A = 0, e_store = [(''//'', ''//TF'')], C = 0, S = 442368\<rparr>) =
     Inl (InvalidInstructionError ''TF currently unimplemented'') \<and>
   fst (applyInstruction \<lparr>A = 0, e_store = [(''//'', ''//TF'')], C = 0, S = 0\<rparr>) =
     Inl (InvalidInstructionError ''Instruction //// does not exist!'')"
proof -
  have wf: "store_wf [(''//'', ''//TF'')]" by code_simp
  have i1: "int_to_symbols 442368 4 = ''//TF''" by code_simp
  have i2: "int_to_symbols 0 4 = ''////''" by code_simp
  have n2: "''//'' \<notin> set function_codes" by code_simp
  have e1: "State_exact \<lparr>A = 0, e_store = [(''//'', ''//TF'')], C = 0, S = 442368\<rparr>"
    by (simp add: State_exact_def exact_def)
  have e2: "State_exact \<lparr>A = 0, e_store = [(''//'', ''//TF'')], C = 0, S = 0\<rparr>"
    by (simp add: State_exact_def exact_def)
  show ?thesis
    using negate_raises_invalid_instruction [of "\<lparr>A = 0, e_store = [(''//'', ''//TF'')], C = 0, S = 442368\<rparr>"]
      negate_raises_invalid_instruction [of "\<lparr>A = 0, e_store = [(''//'', ''//TF'')], C = 0, S = 0\<rparr>"]
      wf n2 e1 e2
    by (simp add: i1 i2)
qed

theorem negate_raises_invalid_instruction_counterexample:
  "run 1 (State_init 0 (snd (load [(''//'', ''//TF'')] []))) =
     Some (Raised (InvalidInstructionError ''TF currently unimplemented''), 0,
       \<lparr>A = 0, e_store = [(''//'', ''//TF''), (''E/'', ''////'')], C = 0, S = 442368\<rparr>) \<and>
   run 1 (State_init 0 (snd (load [(''//'', ''//TT'')] []))) =
     Some (Raised (InvalidInstructionError ''Instruction //TT does not exist!''), 0,
       \<lparr>A = 0, e_store = [(''//'', ''//TT''), (''E/'', ''////'')], C = 0, S = 540672\<rparr>)"
  by code_simp

text \<open>
  Invalid instruction surfacing. If the line the next fetch reads has a function code
  that is none of the ten recognised ones, the run ends in that cycle with
  \<open>InvalidInstructionError\<close>, its message holding the 4 symbols of the line, and the
  step counter is not advanced.
\<close>

theorem invalid_instruction_ends_run:
  assumes "store_wf (e_store st)" and "State_exact st" and "n < steps \<or> steps = 0"
    and "drop 2 (line_at (e_store st) ((C st + 1) mod 1024)) \<notin> set function_codes"
  shows "\<exists>st'. run_loop steps n st =
     Some (Raised (InvalidInstructionError
       (''Instruction '' @ line_at (e_store st) ((C st + 1) mod 1024) @ '' does not exist!'')), n, st')"
proof -
  let ?c = "(C st + 1) mod 1024"
  let ?line = "line_at (e_store st) ?c"
  from fetch_wf [OF assms(1)] obtain v where v: "int_to_symbols v 4 = ?line"
    and f: "I st = (Inr (), st\<lparr>C := ?c, e_store := materialize ?c (e_store st), S := v\<rparr>)"
    by blast
  let ?st1 = "st\<lparr>C := ?c, e_store := materialize ?c (e_store st), S := v\<rparr>"
  have wf1: "store_wf (e_store ?st1)" using assms(1) by (simp add: store_wf_materialize)
  from applyInstruction_execute [OF wf1] obtain s_data s_pair_data st2 where
    "applyInstruction ?st1 =
       execute (int_to_symbols (S ?st1) 4) (take 2 (int_to_symbols (S ?st1) 4))
         (drop 2 (int_to_symbols (S ?st1) 4)) (int_to_symbols (A ?st1) 8) s_data s_pair_data st2"
    by blast
  then have "applyInstruction ?st1 =
      (Inl (InvalidInstructionError (''Instruction '' @ ?line @ '' does not exist!'')), st2)"
    using assms(4) v by (simp add: execute_def function_codes_def)
  then have "next_cycle st =
      (Inl (InvalidInstructionError (''Instruction '' @ ?line @ '' does not exist!'')), st2)"
    using f by (simp add: next_cycle_def)
  from run_loop_raise_rule [OF assms(3) this] show ?thesis by blast
qed

theorem invalid_instruction_ends_run_witness:
  "\<exists>st'. run_loop 0 0 (State_init 0 [(''//'', ''//TT'')]) =
     Some (Raised (InvalidInstructionError ''Instruction //TT does not exist!''), 0, st')"
proof -
  let ?st = "State_init 0 [(''//'', ''//TT'')]"
  have h1: "store_wf (e_store ?st)" by code_simp
  have h2: "State_exact ?st" by code_simp
  have h3: "(0::int) < 0 \<or> (0::int) = 0" by simp
  have l: "line_at (e_store ?st) ((C ?st + 1) mod 1024) = ''//TT''" by code_simp
  have h4: "drop 2 (line_at (e_store ?st) ((C ?st + 1) mod 1024)) \<notin> set function_codes"
    by code_simp
  from invalid_instruction_ends_run [OF h1 h2 h3 h4] show ?thesis by (simp add: l)
qed

text \<open>
  Claim C8, as the code has it. On a well-formed store and with registers in the exact
  range, executing the no-op instruction \<open>T\<pounds>\<close> raises nothing and leaves the
  accumulator, the program counter, the current-instruction register and every line
  already in the memory as they are, in the same order. The memory may grow:
  \<open>applyInstruction\<close> reads the operand line and its successor before it looks at the
  function code, and each of the two addresses that is not yet in the memory is appended
  with the all-zero line.
\<close>

theorem noop_effect:
  assumes "store_wf (e_store st)" and "drop 2 (int_to_symbols (S st) 4) = [CHR ''T'', CHR 0xA3]"
    and "State_exact st"
  shows "applyInstruction st =
    (Inr (), st\<lparr>e_store := e_store st
        @ (if map_of (e_store st) (key (S st mod 1024)) = None then [(key (S st mod 1024), ''////'')] else [])
        @ (if map_of (e_store st) (key (S st mod 1024 + 1)) = None then [(key (S st mod 1024 + 1), ''////'')] else [])\<rparr>)"
proof -
  let ?p = "S st mod 1024"
  let ?m = "e_store st"
  from applyInstruction_execute [OF assms(1)] obtain s_data s_pair_data where
    "applyInstruction st =
       execute (int_to_symbols (S st) 4) (take 2 (int_to_symbols (S st) 4))
         (drop 2 (int_to_symbols (S st) 4)) (int_to_symbols (A st) 8) s_data s_pair_data
         (st\<lparr>e_store := materialize (?p + 1) (materialize ?p ?m)\<rparr>)"
    by blast
  then have 1: "applyInstruction st = (Inr (), st\<lparr>e_store := materialize (?p + 1) (materialize ?p ?m)\<rparr>)"
    using assms(2) by (simp add: execute_def)
  have "map_of (materialize ?p ?m) (key (?p + 1)) = map_of ?m (key (?p + 1))"
    using key_succ_neq [of ?p] by (simp add: map_of_materialize)
  then have "materialize (?p + 1) (materialize ?p ?m) = ?m
        @ (if map_of ?m (key ?p) = None then [(key ?p, ''////'')] else [])
        @ (if map_of ?m (key (?p + 1)) = None then [(key (?p + 1), ''////'')] else [])"
    by (simp add: materialize_append [of "?p + 1"] materialize_append [of ?p ?m])
  with 1 show ?thesis by simp
qed

theorem noop_effect_witness:
  "applyInstruction \<lparr>A = 7, e_store = [(''//'', [CHR ''/'', CHR ''/'', CHR ''T'', CHR 0xA3])], C = 0, S = 1032192\<rparr> =
     (Inr (), \<lparr>A = 7, e_store = [(''//'', [CHR ''/'', CHR ''/'', CHR ''T'', CHR 0xA3]), (''E/'', ''////'')],
                C = 0, S = 1032192\<rparr>)"
proof -
  let ?m = "[(''//'', [CHR ''/'', CHR ''/'', CHR ''T'', CHR 0xA3])]"
  have wf: "store_wf ?m" by code_simp
  have fs: "drop 2 (int_to_symbols 1032192 4) = [CHR ''T'', CHR 0xA3]" by code_simp
  have k0: "key 0 = ''//''" and k1: "key 1 = ''E/''" by code_simp+
  have ex: "State_exact \<lparr>A = 7, e_store = ?m, C = 0, S = 1032192\<rparr>"
    by (simp add: State_exact_def exact_def)
  show ?thesis
    using noop_effect [of "\<lparr>A = 7, e_store = ?m, C = 0, S = 1032192\<rparr>"] wf fs ex
    by (simp add: k0 k1)
qed

theorem noop_effect_counterexample:
  "dump (e_store \<lparr>A = 0, e_store = [(''//'', [CHR ''/'', CHR ''/'', CHR ''T'', CHR 0xA3])], C = 0, S = 1032192\<rparr>) =
     [[CHR ''/'', CHR ''/'', CHR '' '', CHR ''/'', CHR ''/'', CHR ''T'', CHR 0xA3]] \<and>
   dump (e_store (snd (applyInstruction
       \<lparr>A = 0, e_store = [(''//'', [CHR ''/'', CHR ''/'', CHR ''T'', CHR 0xA3])], C = 0, S = 1032192\<rparr>))) =
     [[CHR ''/'', CHR ''/'', CHR '' '', CHR ''/'', CHR ''/'', CHR ''T'', CHR 0xA3], ''E/ ////'']"
  by code_simp

end
